theory Spec2Isabelle
  imports Complex_Main
begin

section \<open>JavaScript values\<close>

text \<open>
  The application is browser JavaScript. A finite number is modelled by the real it denotes,
  and the variables of the application hold finite numbers. An arithmetic operation of the
  code is the exact operation followed by rounding to the nearest double (IEEE 754 binary64,
  ties to even); a result beyond the largest double is an infinity. Zero stands for \<open>+0\<close>.
\<close>

subsection \<open>Rounding to the nearest double\<close>

text \<open>\<open>pow2 q\<close> is \<open>2\<close> to the power \<open>q\<close>.\<close>

definition pow2 :: "int \<Rightarrow> real" where
  "pow2 q = (if 0 \<le> q then 2 ^ nat q else 1 / 2 ^ nat (- q))"

text \<open>The nearest integer, a tie going to the even one.\<close>

definition roundHalfEven :: "real \<Rightarrow> int" where
  "roundHalfEven y =
     (let f = \<lfloor>y\<rfloor>; r = y - of_int f
      in if r < 1 / 2 then f
         else if 1 / 2 < r then f + 1
         else if even f then f else f + 1)"

text \<open>
  The binary exponent of a magnitude, kept within the exponent range of a double:
  \<open>pow2 (binade x) \<le> \<bar>x\<bar> < pow2 (binade x + 1)\<close> for a normal magnitude, \<open>- 1022\<close> below
  (subnormal) and \<open>1023\<close> above.
\<close>

function expUp :: "real \<Rightarrow> int \<Rightarrow> int" where
  "expUp x n = (if x < 2 \<or> 1023 \<le> n then n else expUp (x / 2) (n + 1))"
  by pat_completeness auto
termination
  by (relation "measure (\<lambda>(x, n). nat (1023 - n))") auto

function expDown :: "real \<Rightarrow> int \<Rightarrow> int" where
  "expDown x n = (if 1 \<le> x \<or> n \<le> - 1022 then n else expDown (2 * x) (n - 1))"
  by pat_completeness auto
termination
  by (relation "measure (\<lambda>(x, n). nat (n + 1022))") auto

declare expUp.simps [simp del] expDown.simps [simp del]

definition binade :: "real \<Rightarrow> int" where
  "binade x = (if 1 \<le> \<bar>x\<bar> then expUp \<bar>x\<bar> 0 else expDown \<bar>x\<bar> 0)"

text \<open>
  \<open>fl x\<close>: the multiple of \<open>pow2 (binade x - 52)\<close> nearest to \<open>x\<close>, that is \<open>x\<close> rounded to 53
  significant bits, or to a multiple of \<open>pow2 (- 1074)\<close> in the subnormal range.
\<close>

definition fl :: "real \<Rightarrow> real" where
  "fl x =
     (if x = 0 then 0
      else (let q = binade x - 52
            in of_int (roundHalfEven (x / pow2 q)) * pow2 q))"

subsection \<open>Numbers\<close>

datatype jsnum = Num real | PosInfinity | NegInfinity | NaN

definition isFinite :: "jsnum \<Rightarrow> bool" where
  "isFinite v = (case v of Num _ \<Rightarrow> True | _ \<Rightarrow> False)"

text \<open>
  The double that an exact result rounds to: a magnitude of at least
  \<open>pow2 1024 - pow2 970\<close> rounds beyond the largest double, to an infinity.
\<close>

definition overflowBound :: real where
  "overflowBound = pow2 1024 - pow2 970"

definition js_round :: "real \<Rightarrow> jsnum" where
  "js_round x =
     (if overflowBound \<le> x then PosInfinity
      else if x \<le> - overflowBound then NegInfinity
      else Num (fl x))"

fun js_neg :: "jsnum \<Rightarrow> jsnum" where
  "js_neg (Num a) = Num (- a)"
| "js_neg PosInfinity = NegInfinity"
| "js_neg NegInfinity = PosInfinity"
| "js_neg NaN = NaN"

text \<open>\<open>a + b\<close> and \<open>a - b\<close>.\<close>

fun js_add :: "jsnum \<Rightarrow> jsnum \<Rightarrow> jsnum" where
  "js_add (Num a) (Num b) = js_round (a + b)"
| "js_add (Num a) PosInfinity = PosInfinity"
| "js_add (Num a) NegInfinity = NegInfinity"
| "js_add PosInfinity (Num b) = PosInfinity"
| "js_add PosInfinity PosInfinity = PosInfinity"
| "js_add PosInfinity NegInfinity = NaN"
| "js_add NegInfinity (Num b) = NegInfinity"
| "js_add NegInfinity NegInfinity = NegInfinity"
| "js_add NegInfinity PosInfinity = NaN"
| "js_add NaN b = NaN"
| "js_add (Num a) NaN = NaN"
| "js_add PosInfinity NaN = NaN"
| "js_add NegInfinity NaN = NaN"

definition js_sub :: "jsnum \<Rightarrow> jsnum \<Rightarrow> jsnum" where
  "js_sub a b = js_add a (js_neg b)"

text \<open>
  \<open>a / b\<close>. A zero divisor is \<open>+0\<close>: the one divisor in the code is a difference, which is
  \<open>+0\<close> when it is zero.
\<close>

fun js_div :: "jsnum \<Rightarrow> jsnum \<Rightarrow> jsnum" where
  "js_div (Num a) (Num b) =
     (if b \<noteq> 0 then js_round (a / b)
      else if 0 < a then PosInfinity
      else if a < 0 then NegInfinity
      else NaN)"
| "js_div (Num a) PosInfinity = Num 0"
| "js_div (Num a) NegInfinity = Num 0"
| "js_div PosInfinity (Num b) = (if 0 \<le> b then PosInfinity else NegInfinity)"
| "js_div NegInfinity (Num b) = (if 0 \<le> b then NegInfinity else PosInfinity)"
| "js_div PosInfinity PosInfinity = NaN"
| "js_div PosInfinity NegInfinity = NaN"
| "js_div NegInfinity PosInfinity = NaN"
| "js_div NegInfinity NegInfinity = NaN"
| "js_div NaN b = NaN"
| "js_div (Num a) NaN = NaN"
| "js_div PosInfinity NaN = NaN"
| "js_div NegInfinity NaN = NaN"

text \<open>\<open>v * c\<close> for a finite factor \<open>c\<close>.\<close>

definition js_times :: "jsnum \<Rightarrow> real \<Rightarrow> jsnum" where
  "js_times v c =
     (case v of
        Num a \<Rightarrow> js_round (a * c)
      | NaN \<Rightarrow> NaN
      | PosInfinity \<Rightarrow> (if 0 < c then PosInfinity else if c < 0 then NegInfinity else NaN)
      | NegInfinity \<Rightarrow> (if 0 < c then NegInfinity else if c < 0 then PosInfinity else NaN))"

fun Math_max :: "jsnum \<Rightarrow> jsnum \<Rightarrow> jsnum" where
  "Math_max NaN b = NaN"
| "Math_max a NaN = NaN"
| "Math_max PosInfinity b = PosInfinity"
| "Math_max a PosInfinity = PosInfinity"
| "Math_max NegInfinity b = b"
| "Math_max a NegInfinity = a"
| "Math_max (Num a) (Num b) = Num (max a b)"

fun Math_min :: "jsnum \<Rightarrow> jsnum \<Rightarrow> jsnum" where
  "Math_min NaN b = NaN"
| "Math_min a NaN = NaN"
| "Math_min NegInfinity b = NegInfinity"
| "Math_min a NegInfinity = NegInfinity"
| "Math_min PosInfinity b = b"
| "Math_min a PosInfinity = a"
| "Math_min (Num a) (Num b) = Num (min a b)"

text \<open>
  Errors. \<open>QuotaExceededError\<close> is what \<open>localStorage.setItem\<close> throws and \<open>SyntaxError\<close>
  what \<open>JSON.parse\<close> throws. \<open>PreconditionError\<close> and \<open>IndexError\<close> are the error kinds the
  specification names; no statement of the source raises them.
\<close>

datatype js_error = QuotaExceededError | SyntaxError | PreconditionError | IndexError

subsection \<open>Strings\<close>

text \<open>
  A string is a list of characters with the codes 0 to 255, so text within Latin-1 is
  represented. Whitespace is what \<open>String.prototype.trim\<close> removes and \<open>parseFloat\<close> skips:
  within these codes the space, tab, line feed, vertical tab, form feed, carriage return
  and the no-break space.
\<close>

definition isWhiteSpace :: "char \<Rightarrow> bool" where
  "isWhiteSpace c =
     (c \<in> set [CHR 0x20, CHR 0x09, CHR 0x0A, CHR 0x0B, CHR 0x0C, CHR 0x0D, CHR 0xA0])"

definition trimStart :: "string \<Rightarrow> string" where
  "trimStart s = dropWhile isWhiteSpace s"

definition trim :: "string \<Rightarrow> string" where
  "trim s = rev (dropWhile isWhiteSpace (rev (dropWhile isWhiteSpace s)))"

text \<open>\<open>s.split(sep)\<close> for a one-character separator: always at least one piece.\<close>

fun split_acc :: "char \<Rightarrow> string \<Rightarrow> string \<Rightarrow> string list" where
  "split_acc sep cur [] = [rev cur]"
| "split_acc sep cur (c # cs) =
     (if c = sep then rev cur # split_acc sep [] cs else split_acc sep (c # cur) cs)"

definition split :: "string \<Rightarrow> char \<Rightarrow> string list" where
  "split s sep = split_acc sep [] s"

text \<open>\<open>text.split(/\r?\n/)\<close>: a line feed, together with a carriage return right before it, separates.\<close>

fun splitLines_acc :: "string \<Rightarrow> string \<Rightarrow> string list" where
  "splitLines_acc cur [] = [rev cur]"
| "splitLines_acc cur (c # cs) =
     (if c = CHR 0x0A then rev cur # splitLines_acc [] cs
      else if c = CHR 0x0D \<and> cs \<noteq> [] \<and> hd cs = CHR 0x0A then rev cur # splitLines_acc [] (tl cs)
      else splitLines_acc (c # cur) cs)"

definition splitLines :: "string \<Rightarrow> string list" where
  "splitLines s = splitLines_acc [] s"

definition startsWith :: "string \<Rightarrow> string \<Rightarrow> bool" where
  "startsWith s p = (take (length p) s = p)"

definition endsWith :: "string \<Rightarrow> string \<Rightarrow> bool" where
  "endsWith s p = (length p \<le> length s \<and> drop (length s - length p) s = p)"

text \<open>The upper-case letters within these codes are A to Z and 0xC0 to 0xDE without 0xD7.\<close>

definition toLowerCase :: "string \<Rightarrow> string" where
  "toLowerCase s =
     map (\<lambda>c. let n = (of_char c :: nat)
              in if (65 \<le> n \<and> n \<le> 90) \<or> (192 \<le> n \<and> n \<le> 222 \<and> n \<noteq> 215)
                 then char_of (n + 32) else c) s"

definition isDigit :: "char \<Rightarrow> bool" where
  "isDigit c = (let n = (of_char c :: nat) in 48 \<le> n \<and> n \<le> 57)"

definition digitsValue :: "string \<Rightarrow> nat" where
  "digitsValue ds = foldl (\<lambda>acc c. 10 * acc + (of_char c - 48)) 0 ds"

text \<open>
  Decimal text of a natural number, as a template literal prints a file size (a size
  below \<open>10\<^sup>2\<^sup>1\<close>, which prints in plain digits).
\<close>

function String_of_nat :: "nat \<Rightarrow> string" where
  "String_of_nat n =
     (if n < 10 then [char_of (48 + n)]
      else String_of_nat (n div 10) @ [char_of (48 + n mod 10)])"
  by pat_completeness auto
termination
  by (relation "measure id") auto

declare String_of_nat.simps [simp del]

subsection \<open>parseFloat\<close>

text \<open>
  \<open>parseFloat\<close> skips leading whitespace and reads the longest prefix that is a decimal
  literal: an optional sign, then \<open>Infinity\<close>, or digits with an optional fraction and an
  optional exponent. No such prefix gives \<open>NaN\<close>. The result is the double nearest to the
  value of the literal: an infinity beyond the largest double, zero below the smallest.
\<close>

definition parseExponent :: "string \<Rightarrow> int" where
  "parseExponent r =
     (if r \<noteq> [] \<and> (hd r = CHR ''e'' \<or> hd r = CHR ''E'') then
        (let r1 = tl r;
             neg = (r1 \<noteq> [] \<and> hd r1 = CHR ''-'');
             r2 = (if r1 \<noteq> [] \<and> (hd r1 = CHR ''+'' \<or> hd r1 = CHR ''-'') then tl r1 else r1);
             ds = takeWhile isDigit r2
         in if ds = [] then 0
            else if neg then - int (digitsValue ds) else int (digitsValue ds))
      else 0)"

definition scale10 :: "real \<Rightarrow> int \<Rightarrow> real" where
  "scale10 m e = (if 0 \<le> e then m * 10 ^ nat e else m / 10 ^ nat (- e))"

text \<open>The exact value of the unsigned literal, before rounding.\<close>

definition parseUnsigned :: "string \<Rightarrow> jsnum" where
  "parseUnsigned r =
     (if startsWith r ''Infinity'' then PosInfinity
      else
        (let ids = takeWhile isDigit r;
             r1 = dropWhile isDigit r;
             hasDot = (r1 \<noteq> [] \<and> hd r1 = CHR ''.'');
             fds = (if hasDot then takeWhile isDigit (tl r1) else []);
             r2 = (if hasDot then dropWhile isDigit (tl r1) else r1)
         in if ids = [] \<and> fds = [] then NaN
            else Num (scale10 (real (digitsValue (ids @ fds)))
                        (parseExponent r2 - int (length fds)))))"

definition parseFloat :: "string \<Rightarrow> jsnum" where
  "parseFloat str =
     (let t = trimStart str;
          neg = (t \<noteq> [] \<and> hd t = CHR ''-'');
          r = (if t \<noteq> [] \<and> (hd t = CHR ''+'' \<or> hd t = CHR ''-'') then tl t else t)
      in case parseUnsigned r of
           Num x \<Rightarrow> js_round (if neg then - x else x)
         | PosInfinity \<Rightarrow> (if neg then NegInfinity else PosInfinity)
         | v \<Rightarrow> v)"

section \<open>Application state\<close>

text \<open>
  The module-level variables of the scripts, the few properties of page elements that the
  handlers read back, and the parts of the browser they depend on, as one record. The page
  elements themselves are taken to exist, as on the shipped page; status texts, time labels
  and canvas drawing are not modelled.
\<close>

text \<open>
  A parsed CSV row is an object: its keys in insertion order, each with a number. (A key
  that is an array index would be enumerated before the others; header names are taken
  not to be such keys.)
\<close>

type_synonym row = "(string \<times> real) list"

fun obj_put :: "row \<Rightarrow> string \<Rightarrow> real \<Rightarrow> row" where
  "obj_put [] k v = [(k, v)]"
| "obj_put ((k', v') # r) k v = (if k' = k then (k, v) # r else (k', v') # obj_put r k v)"

text \<open>
  \<open>row[k] = v\<close> on a plain object, for a number \<open>v\<close>: the key \<open>__proto__\<close> is the accessor
  inherited from \<open>Object.prototype\<close>, whose setter ignores a number, so nothing is stored;
  every other key becomes or stays a property of the object.
\<close>

definition obj_set :: "row \<Rightarrow> string \<Rightarrow> real \<Rightarrow> row" where
  "obj_set r k v = (if k = ''__proto__'' then r else obj_put r k v)"

definition obj_get :: "row \<Rightarrow> string \<Rightarrow> real option" where
  "obj_get r k = map_of r k"

datatype chartId = ChartAcc | ChartGyro | ChartMag

record point =
  px :: "real option"
  py :: real

record chart =
  x_min :: jsnum
  x_max :: jsnum
  datasets :: "point list list"

text \<open>An annotation; its properties are \<open>time\<close>, \<open>label\<close>, \<open>eventType\<close> and \<open>notes\<close>.\<close>

record annotation =
  a_time :: real
  a_label :: string
  a_eventType :: string
  a_notes :: string

text \<open>A file's name and its size in bytes.\<close>

record fileInfo =
  fi_name :: string
  fi_size :: nat

record keypoint =
  kp_name :: string
  kp_x :: real
  kp_y :: real
  kp_score :: real

type_synonym pose = "keypoint list"

datatype mode = Live | Upload

text \<open>
  A property of an object read from a project file: absent, \<open>null\<close>, or a value. Where a
  property holds a value, it is of the type that the export writes.
\<close>

datatype 'a jsprop = Absent | Null | Val 'a

text \<open>The persisted aggregate, by the properties that the code writes or reads.\<close>

record projectData =
  pd_syncOffset :: "real jsprop"
  pd_timestamps :: "annotation list jsprop"
  pd_sampleRate :: "real jsprop"
  pd_createdAt :: "string jsprop"
  pd_notes :: "string jsprop"
  pd_videoFileName :: "string jsprop"
  pd_csvFileName :: "string jsprop"

text \<open>
  JSON text is modelled by the object it encodes: \<open>JSON.parse\<close> undoes \<open>JSON.stringify\<close>,
  and throws on text that is no JSON.
\<close>

datatype jsonText = JsonOf projectData | NotJson

definition JSON_stringify :: "projectData \<Rightarrow> jsonText" where
  "JSON_stringify pd = JsonOf pd"

definition JSON_parse :: "jsonText \<Rightarrow> js_error + projectData" where
  "JSON_parse t = (case t of JsonOf pd \<Rightarrow> Inr pd | NotJson \<Rightarrow> Inl SyntaxError)"

text \<open>
  \<open>Object.assign(target, source)\<close>: every property that the source has, also one that holds
  \<open>null\<close>, replaces the target's.
\<close>

definition pick :: "'a jsprop \<Rightarrow> 'a jsprop \<Rightarrow> 'a jsprop" where
  "pick src tgt = (case src of Absent \<Rightarrow> tgt | Null \<Rightarrow> Null | Val v \<Rightarrow> Val v)"

definition Object_assign :: "projectData \<Rightarrow> projectData \<Rightarrow> projectData" where
  "Object_assign target source =
     \<lparr> pd_syncOffset = pick (pd_syncOffset source) (pd_syncOffset target),
       pd_timestamps = pick (pd_timestamps source) (pd_timestamps target),
       pd_sampleRate = pick (pd_sampleRate source) (pd_sampleRate target),
       pd_createdAt = pick (pd_createdAt source) (pd_createdAt target),
       pd_notes = pick (pd_notes source) (pd_notes target),
       pd_videoFileName = pick (pd_videoFileName source) (pd_videoFileName target),
       pd_csvFileName = pick (pd_csvFileName source) (pd_csvFileName target) \<rparr>"

text \<open>
  The browser's \<open>localStorage\<close>: the stored items, and whether the browser refuses the next
  write (its quota is exhausted).
\<close>

record storage =
  items :: "string \<Rightarrow> jsonText option"
  quotaExceeded :: bool

definition setItem :: "storage \<Rightarrow> string \<Rightarrow> jsonText \<Rightarrow> js_error + storage" where
  "setItem st k v =
     (if quotaExceeded st then Inl QuotaExceededError
      else Inr (st\<lparr>items := (items st)(k \<mapsto> v)\<rparr>))"

record app =
  imuCharts :: "chartId \<Rightarrow> chart option"
  csvData :: "row list option"
  csvTimesSeconds :: "real list"
  syncOffset :: real
  videoMarkedTime :: "real option"
  dataMarkedTime :: "real option"
  lastImuUpdateTime :: real
  timestamps :: "annotation list"
  currentVideoFileInfo :: "fileInfo option"
  currentMode :: mode
  isRunning :: bool
  frameIndex :: nat
  lastPose :: "pose option"
  uploadedVideoReady :: bool
  setSyncBtn_disabled :: bool
  markDataBtn_disabled :: bool
  notesInput_value :: string
  marker_left :: "jsnum option"
  imuPanel_shown :: bool
  localStorage :: storage
  console :: "string list"
  clock :: string
  window_Chart :: bool
  window_JSZip :: bool

definition UPLOAD_FRAME_SKIP :: nat where
  "UPLOAD_FRAME_SKIP = 2"

definition SAMPLE_RATE_HZ :: real where
  "SAMPLE_RATE_HZ = 104"

definition IMU_UPDATE_THROTTLE_MS :: real where
  "IMU_UPDATE_THROTTLE_MS = 33"

text \<open>
  The state when the page has loaded and \<open>main\<close> has run, with the chart library present:
  the three charts are created and the upload mode is selected, which shows the sensor
  panel. The clock value stands for whatever \<open>new Date().toISOString()\<close> returns.
\<close>

definition initialApp :: app where
  "initialApp =
     \<lparr> imuCharts = (\<lambda>sensor. Some \<lparr> x_min = Num 0, x_max = Num 5, datasets = [[], [], []] \<rparr>),
       csvData = None, csvTimesSeconds = [], syncOffset = 0,
       videoMarkedTime = None, dataMarkedTime = None, lastImuUpdateTime = 0, timestamps = [],
       currentVideoFileInfo = None, currentMode = Upload, isRunning = False, frameIndex = 0,
       lastPose = None, uploadedVideoReady = False, setSyncBtn_disabled = True,
       markDataBtn_disabled = True, notesInput_value = [], marker_left = None,
       imuPanel_shown = True,
       localStorage = \<lparr> items = (\<lambda>_. None), quotaExceeded = False \<rparr>,
       console = [], clock = ''2025-12-01T00:00:00.000Z'', window_Chart = True,
       window_JSZip = True \<rparr>"

section \<open>Identity-keyed persistence\<close>

definition setCurrentVideoFileInfo :: "app \<Rightarrow> fileInfo option \<Rightarrow> app" where
  "setCurrentVideoFileInfo s file =
     (case file of
        None \<Rightarrow> s\<lparr>currentVideoFileInfo := None\<rparr>
      | Some f \<Rightarrow>
          (if fi_name f \<noteq> [] then s\<lparr>currentVideoFileInfo := Some \<lparr>fi_name = fi_name f, fi_size = fi_size f\<rparr>\<rparr>
           else s\<lparr>currentVideoFileInfo := None\<rparr>))"

definition getProjectStorageKey :: "app \<Rightarrow> string option" where
  "getProjectStorageKey s =
     (case currentVideoFileInfo s of
        None \<Rightarrow> None
      | Some info \<Rightarrow> Some (''project_'' @ fi_name info @ ''_'' @ String_of_nat (fi_size info)))"

text \<open>
  \<open>saveProjectToLocal(extra)\<close>. The write sits in a \<open>try\<close>; the \<open>catch\<close> logs a warning and
  the function returns normally.
\<close>

definition saveProjectToLocal :: "app \<Rightarrow> projectData option \<Rightarrow> js_error + app" where
  "saveProjectToLocal s extra =
     (case getProjectStorageKey s of
        None \<Rightarrow> Inr s
      | Some key \<Rightarrow>
          (if key = [] then Inr s
           else
             (let projectData =
                    \<lparr> pd_syncOffset = Val (syncOffset s),
                      pd_timestamps = Val (timestamps s),
                      pd_sampleRate = Val SAMPLE_RATE_HZ,
                      pd_createdAt = Val (clock s),
                      pd_notes = Val (notesInput_value s),
                      pd_videoFileName = Absent,
                      pd_csvFileName = Absent \<rparr>;
                  projectData' =
                    (case extra of None \<Rightarrow> projectData | Some e \<Rightarrow> Object_assign projectData e)
              in case setItem (localStorage s) key (JSON_stringify projectData') of
                   Inl err \<Rightarrow> Inr (s\<lparr>console := console s @ [''Could not save project to localStorage:'']\<rparr>)
                 | Inr st \<Rightarrow> Inr (s\<lparr>localStorage := st\<rparr>))))"

section \<open>Windowed view\<close>

definition sensors :: "chartId \<Rightarrow> string list" where
  "sensors c =
     (case c of
        ChartAcc \<Rightarrow> [''ax'', ''ay'', ''az'']
      | ChartGyro \<Rightarrow> [''gx'', ''gy'', ''gz'']
      | ChartMag \<Rightarrow> [''mx'', ''my'', ''mz''])"

definition rowsOf :: "app \<Rightarrow> row list" where
  "rowsOf s = (case csvData s of None \<Rightarrow> [] | Some rows \<Rightarrow> rows)"

definition dataPoints :: "app \<Rightarrow> string \<Rightarrow> point list" where
  "dataPoints s key =
     map (\<lambda>(idx, r).
            \<lparr> px = (if idx < length (csvTimesSeconds s) then Some (csvTimesSeconds s ! idx) else None),
              py = (case obj_get r key of None \<Rightarrow> 0 | Some y \<Rightarrow> y) \<rparr>)
         (enumerate 0 (rowsOf s))"

definition hasCharts :: "app \<Rightarrow> bool" where
  "hasCharts s =
     (imuCharts s ChartAcc \<noteq> None \<or> imuCharts s ChartGyro \<noteq> None \<or> imuCharts s ChartMag \<noteq> None)"

text \<open>The video time shifted into the sensor timeline (the first line of the view update).\<close>

definition adjustedTime :: "app \<Rightarrow> jsnum \<Rightarrow> jsnum" where
  "adjustedTime s videoTime = js_sub videoTime (Num (syncOffset s))"

text \<open>
  \<open>updateChartsForVideoTime(videoTime)\<close>: every existing chart gets the full series and the
  window as its x-range; the marker is placed at \<open>markerPos\<close> percent.
\<close>

definition updateChartsForVideoTime :: "app \<Rightarrow> jsnum \<Rightarrow> app" where
  "updateChartsForVideoTime s videoTime =
     (if csvData s = None \<or> csvTimesSeconds s = [] then s
      else if \<not> hasCharts s then s
      else
        (let adjustedTime = adjustedTime s videoTime;
             windowSize = Num 5;
             startTime = Math_max (Num 0) (js_sub adjustedTime (js_div windowSize (Num 2)));
             endTime = js_add adjustedTime (js_div windowSize (Num 2));
             charts =
               (\<lambda>chartId.
                  case imuCharts s chartId of
                    None \<Rightarrow> None
                  | Some chart \<Rightarrow>
                      Some (chart\<lparr> datasets := map (dataPoints s) (sensors chartId),
                                   x_min := startTime, x_max := endTime \<rparr>));
             markerPercent = js_div (js_sub adjustedTime startTime) (js_sub endTime startTime);
             markerPos = Math_min (Math_max (js_times markerPercent 100) (Num 0)) (Num 100)
         in s\<lparr>imuCharts := charts, marker_left := Some markerPos\<rparr>))"

section \<open>Stream synchronizer\<close>

definition checkSyncReady :: "app \<Rightarrow> app" where
  "checkSyncReady s =
     s\<lparr>setSyncBtn_disabled := \<not> (videoMarkedTime s \<noteq> None \<and> dataMarkedTime s \<noteq> None)\<rparr>"

text \<open>The click handler of the mark-video button; \<open>currentTime\<close> is \<open>video.currentTime\<close>.\<close>

definition markVideoClick :: "app \<Rightarrow> real \<Rightarrow> app" where
  "markVideoClick s currentTime =
     checkSyncReady (s\<lparr>videoMarkedTime := Some (if currentTime = 0 then 0 else currentTime)\<rparr>)"

text \<open>\<open>findIndex\<close>: the first index whose element satisfies the test, or \<open>-1\<close>.\<close>

fun findIndex_from :: "int \<Rightarrow> ('a \<Rightarrow> bool) \<Rightarrow> 'a list \<Rightarrow> int" where
  "findIndex_from i P [] = - 1"
| "findIndex_from i P (x # xs) = (if P x then i else findIndex_from (i + 1) P xs)"

definition findIndex :: "('a \<Rightarrow> bool) \<Rightarrow> 'a list \<Rightarrow> int" where
  "findIndex P xs = findIndex_from 0 P xs"

text \<open>The input listener of the data slider; \<open>val\<close> is the slider's value.\<close>

definition dataSliderInput :: "app \<Rightarrow> string \<Rightarrow> app" where
  "dataSliderInput s val =
     (case parseFloat val of
        Num t \<Rightarrow>
          (if csvTimesSeconds s = [] then s
           else
             (let foundIndex = findIndex (\<lambda>x. t \<le> x) (csvTimesSeconds s);
                  idx = (if foundIndex = - 1 then int (length (csvTimesSeconds s)) - 1
                         else max foundIndex 0);
                  s1 = s\<lparr>dataMarkedTime := Some (csvTimesSeconds s ! nat idx)\<rparr>
              in updateChartsForVideoTime s1
                   (js_add (Num (csvTimesSeconds s ! nat idx)) (Num (syncOffset s1)))))
      | _ \<Rightarrow> s)"

text \<open>The click handler of the mark-data button.\<close>

definition markDataClick :: "app \<Rightarrow> app" where
  "markDataClick s =
     (if csvData s = None \<or> csvTimesSeconds s = [] then s
      else
        (let s1 = (if dataMarkedTime s = None then s\<lparr>dataMarkedTime := Some 0\<rparr> else s)
         in checkSyncReady s1))"

text \<open>
  The click handler of the apply-sync button. Both marks are finite and not negative (a
  time of the video and a time of a sample), so their difference is finite.
\<close>

definition setSyncClick :: "app \<Rightarrow> js_error + app" where
  "setSyncClick s =
     (case (videoMarkedTime s, dataMarkedTime s) of
        (Some v, Some d) \<Rightarrow>
          saveProjectToLocal
            (s\<lparr> syncOffset := fl (v - d), videoMarkedTime := None, dataMarkedTime := None,
                setSyncBtn_disabled := True \<rparr>)
            None
      | _ \<Rightarrow> Inr s)"

section \<open>Time-series store: CSV parsing\<close>

text \<open>\<open>Number.isFinite(v) ? v : 0\<close>.\<close>

definition finiteOrZero :: "jsnum \<Rightarrow> real" where
  "finiteOrZero v = (if isFinite v then (case v of Num x \<Rightarrow> x | _ \<Rightarrow> 0) else 0)"

text \<open>\<open>parseFloat(values[j])\<close>; an index past the end reads \<open>undefined\<close>, which parses to \<open>NaN\<close>.\<close>

definition fieldAt :: "string list \<Rightarrow> nat \<Rightarrow> jsnum" where
  "fieldAt vals j = (if j < length vals then parseFloat (vals ! j) else NaN)"

definition parseRow :: "string list \<Rightarrow> string \<Rightarrow> row" where
  "parseRow headers line =
     (let vals = split line (CHR '','')
      in foldl (\<lambda>r (j, h). obj_set r h (finiteOrZero (fieldAt vals j))) [] (enumerate 0 headers))"

text \<open>The loop over the lines after the header; a blank line is skipped.\<close>

fun parseLines :: "string list \<Rightarrow> string list \<Rightarrow> row list" where
  "parseLines headers [] = []"
| "parseLines headers (line # rest) =
     (if trim line = [] then parseLines headers rest
      else parseRow headers line # parseLines headers rest)"

definition nonBlankLines :: "string \<Rightarrow> string list" where
  "nonBlankLines text = filter (\<lambda>l. trim l \<noteq> []) (splitLines text)"

text \<open>\<open>csvData.map((_, idx) => idx / SAMPLE_RATE_HZ)\<close>.\<close>

definition timeAxis :: "row list \<Rightarrow> real list" where
  "timeAxis rows = map (\<lambda>idx. fl (real idx / SAMPLE_RATE_HZ)) [0..<length rows]"

definition initImuCharts :: "app \<Rightarrow> app" where
  "initImuCharts s =
     (if \<not> window_Chart s then s
      else s\<lparr>imuCharts :=
             (\<lambda>sensor. Some \<lparr> x_min = Num 0, x_max = Num 5, datasets = [[], [], []] \<rparr>)\<rparr>)"

definition updateImuChartsFull :: "app \<Rightarrow> app" where
  "updateImuChartsFull s =
     (if csvData s = None \<or> csvTimesSeconds s = [] then s
      else
        (let maxTime = last (csvTimesSeconds s)
         in s\<lparr>imuCharts :=
                (\<lambda>chartId.
                   case imuCharts s chartId of
                     None \<Rightarrow> None
                   | Some chart \<Rightarrow>
                       Some (chart\<lparr> datasets := map (dataPoints s) (sensors chartId),
                                    x_min := Num 0, x_max := Num (max 5 maxTime) \<rparr>))\<rparr>))"

text \<open>The \<open>onload\<close> handler of the CSV file reader; \<open>text\<close> is the file's content.\<close>

definition csvOnload :: "app \<Rightarrow> string \<Rightarrow> app" where
  "csvOnload s text =
     (let lines = nonBlankLines text
      in if lines = [] then s
         else
           (let headers = map trim (split (hd lines) (CHR '',''));
                rows = parseLines headers (tl lines);
                s1 = s\<lparr> csvData := Some rows, csvTimesSeconds := timeAxis rows,
                         markDataBtn_disabled := False \<rparr>
            in updateImuChartsFull (initImuCharts s1)))"

section \<open>Annotations\<close>

text \<open>\<open>timestamps.splice(index, 1)\<close> for an index within the array.\<close>

definition splice1 :: "'a list \<Rightarrow> nat \<Rightarrow> 'a list" where
  "splice1 xs i = take i xs @ drop (Suc i) xs"

definition deleteTimestamp :: "app \<Rightarrow> int \<Rightarrow> js_error + app" where
  "deleteTimestamp s index =
     (if index < 0 \<or> int (length (timestamps s)) \<le> index then Inr s
      else saveProjectToLocal (s\<lparr>timestamps := splice1 (timestamps s) (nat index)\<rparr>) None)"

section \<open>Tracking loop\<close>

text \<open>
  What one call of \<open>renderFrame\<close> reads from its surroundings: the video's \<open>readyState\<close> and
  \<open>currentTime\<close>, the pose the detector returns if it is asked on this tick (\<open>poses[0] || null\<close>,
  so \<open>None\<close> when it finds no pose), and \<open>performance.now()\<close>, the milliseconds
  since the page began to load.
\<close>

record tick =
  readyState :: nat
  estimatePoses :: "pose option"
  performance_now :: real
  video_currentTime :: real

text \<open>What the call did: whether it asked the detector, which pose it drew, whether it updated the charts.\<close>

record frame =
  inferred :: bool
  drawn :: "pose option"
  imuUpdated :: bool

definition idleFrame :: frame where
  "idleFrame = \<lparr> inferred = False, drawn = None, imuUpdated = False \<rparr>"

definition renderFrame :: "app \<Rightarrow> tick \<Rightarrow> app \<times> frame" where
  "renderFrame s t =
     (if \<not> isRunning s then (s, idleFrame)
      else if readyState t < 2 then (s, idleFrame)
      else
        (let s1 = s\<lparr>frameIndex := frameIndex s + 1\<rparr>;
             shouldUpdatePose =
               (if currentMode s1 = Upload
                then frameIndex s1 mod UPLOAD_FRAME_SKIP = 0 \<or> lastPose s1 = None
                else True);
             s2 = (if shouldUpdatePose then s1\<lparr>lastPose := estimatePoses t\<rparr> else s1);
             poseToDraw = (if shouldUpdatePose then lastPose s2 else lastPose s1)
         in case poseToDraw of
              None \<Rightarrow> (s2, \<lparr> inferred = shouldUpdatePose, drawn = None, imuUpdated = False \<rparr>)
            | Some p \<Rightarrow>
                (if currentMode s2 = Upload \<and> csvData s2 \<noteq> None \<and> csvTimesSeconds s2 \<noteq> []
                    \<and> imuPanel_shown s2
                    \<and> fl (performance_now t - lastImuUpdateTime s2) > IMU_UPDATE_THROTTLE_MS
                 then
                   ((updateChartsForVideoTime s2
                        (Num (if video_currentTime t = 0 then 0 else video_currentTime t)))
                       \<lparr>lastImuUpdateTime := performance_now t\<rparr>,
                    \<lparr> inferred = shouldUpdatePose, drawn = Some p, imuUpdated = True \<rparr>)
                 else (s2, \<lparr> inferred = shouldUpdatePose, drawn = Some p, imuUpdated = False \<rparr>))))"

text \<open>Consecutive ticks: the states before each tick, and what each tick did.\<close>

fun runFrames :: "app \<Rightarrow> tick list \<Rightarrow> frame list" where
  "runFrames s [] = []"
| "runFrames s (t # ts) = snd (renderFrame s t) # runFrames (fst (renderFrame s t)) ts"

fun runState :: "app \<Rightarrow> tick list \<Rightarrow> app" where
  "runState s [] = s"
| "runState s (t # ts) = runState (fst (renderFrame s t)) ts"

text \<open>
  \<open>handleStart\<close>, with the detector models loaded and the camera available: it refuses to
  start twice, and in upload mode without a loaded video.
\<close>

definition handleStart :: "app \<Rightarrow> app" where
  "handleStart s =
     (if isRunning s then s
      else if currentMode s = Upload \<and> \<not> uploadedVideoReady s then s
      else s\<lparr>frameIndex := 0, lastPose := None, isRunning := True\<rparr>)"

section \<open>Project bundle: export and import\<close>

text \<open>
  The archive, by the three places the code reads and writes: the entry \<open>project.json\<close>, the
  entries under \<open>video/\<close> and the entries under \<open>data/\<close>, each folder in archive order with
  the path relative to the folder and the directory flag.
\<close>

record blob =
  blob_type :: string
  blob_bytes :: string

record 'a zipObj =
  relativePath :: string
  dir :: bool
  content :: 'a

record zip =
  project_json :: "jsonText option"
  video_folder :: "blob zipObj list"
  data_folder :: "string zipObj list"

datatype fileContent = ZipContent zip | JsonContent jsonText

record projectFile =
  file_name :: string
  file_content :: fileContent

text \<open>\<open>xs.join(sep)\<close>.\<close>

fun join :: "string list \<Rightarrow> string \<Rightarrow> string" where
  "join [] sep = []"
| "join [x] sep = x"
| "join (x # y # ys) sep = x @ sep @ join (y # ys) sep"

text \<open>
  What the export reads from its surroundings: the blob behind the video element's source
  (\<open>None\<close> when the source is no blob URL or the fetch fails) and the answer to the file name
  prompt (empty when the prompt is cancelled).
\<close>

record exportEnv =
  videoBlob :: "blob option"
  promptAnswer :: string

text \<open>The CSV text of step 3; \<open>String_of_num\<close> is the platform's conversion of a number to text.\<close>

definition csvTextOf :: "(real \<Rightarrow> string) \<Rightarrow> row list \<Rightarrow> string" where
  "csvTextOf String_of_num rows =
     (let headers = map fst (hd rows);
          lines = join headers '','' #
                  map (\<lambda>r. join (map (\<lambda>h. case obj_get r h of None \<Rightarrow> [] | Some v \<Rightarrow> String_of_num v)
                                     headers) '','')
                      rows
      in join lines [CHR 0x0A])"

definition exportProject :: "(real \<Rightarrow> string) \<Rightarrow> app \<Rightarrow> exportEnv \<Rightarrow> projectFile option" where
  "exportProject String_of_num s env =
     (if \<not> window_JSZip s then None
      else
        (let projectData =
               \<lparr> pd_syncOffset = Val (syncOffset s),
                 pd_timestamps = Val (timestamps s),
                 pd_sampleRate = Val SAMPLE_RATE_HZ,
                 pd_createdAt = Val (clock s),
                 pd_notes = Val (notesInput_value s),
                 pd_videoFileName = Val ''video_from_project.mp4'',
                 pd_csvFileName = (if rowsOf s \<noteq> [] then Val ''imu_data.csv'' else Null) \<rparr>;
             videoEntries =
               (case videoBlob env of
                  None \<Rightarrow> []
                | Some b \<Rightarrow>
                    (let mime = (if blob_type b = [] then ''video/mp4'' else blob_type b);
                         ext = (if CHR ''/'' \<in> set mime then split mime (CHR ''/'') ! 1 else ''mp4'')
                     in [\<lparr> relativePath = ''video_from_project.'' @ ext, dir = False, content = b \<rparr>]));
             dataEntries =
               (if rowsOf s \<noteq> []
                then [\<lparr> relativePath = ''imu_data.csv'', dir = False,
                         content = csvTextOf String_of_num (rowsOf s) \<rparr>]
                else []);
             filename = promptAnswer env
         in if filename = [] then None
            else
              Some \<lparr> file_name =
                        (if \<not> endsWith (toLowerCase filename) ''.zip'' then filename @ ''.zip''
                         else filename),
                      file_content =
                        ZipContent \<lparr> project_json = Some (JSON_stringify projectData),
                                     video_folder = videoEntries,
                                     data_folder = dataEntries \<rparr> \<rparr>))"

text \<open>The first entry of a folder that is a file and passes the test.\<close>

fun firstFile :: "('a zipObj \<Rightarrow> bool) \<Rightarrow> 'a zipObj list \<Rightarrow> 'a zipObj option" where
  "firstFile ok [] = None"
| "firstFile ok (e # es) = (if \<not> dir e \<and> ok e then Some e else firstFile ok es)"

text \<open>\<open>projectData.syncOffset || 0\<close>, \<open>projectData.timestamps || []\<close>, \<open>projectData.notes || ""\<close>.\<close>

definition applyMetadata :: "app \<Rightarrow> projectData \<Rightarrow> app" where
  "applyMetadata s pd =
     s\<lparr> syncOffset := (case pd_syncOffset pd of Val x \<Rightarrow> (if x = 0 then 0 else x) | _ \<Rightarrow> 0),
        timestamps := (case pd_timestamps pd of Val ts \<Rightarrow> ts | _ \<Rightarrow> []),
        notesInput_value := (case pd_notes pd of Val n \<Rightarrow> (if n = [] then [] else n) | _ \<Rightarrow> []) \<rparr>"

text \<open>Step 2 of the archive import: the video entry becomes the current media file.\<close>

definition importVideo :: "app \<Rightarrow> zip \<Rightarrow> app" where
  "importVideo s z =
     (case firstFile (\<lambda>e. True) (video_folder z) of
        None \<Rightarrow> s
      | Some videoEntry \<Rightarrow>
          (let segment = last (split (''video/'' @ relativePath videoEntry) (CHR ''/''));
               videoName = (if segment = [] then ''video_from_project.mp4'' else segment);
               s1 = setCurrentVideoFileInfo s
                      (Some \<lparr> fi_name = videoName,
                              fi_size = length (blob_bytes (content videoEntry)) \<rparr>)
           in s1\<lparr>uploadedVideoReady := False\<rparr>))"

text \<open>
  The archive branch of \<open>importProject\<close>; \<open>currentTime\<close> is \<open>video.currentTime\<close> when the
  charts are refreshed. An exception inside is caught and reported by an alert.
\<close>

definition importZip :: "app \<Rightarrow> zip \<Rightarrow> real \<Rightarrow> js_error + app" where
  "importZip s z currentTime =
     (case project_json z of
        None \<Rightarrow> Inr s
      | Some projectText \<Rightarrow>
          (case JSON_parse projectText of
             Inl err \<Rightarrow> Inr s
           | Inr projectData \<Rightarrow>
               (let s1 = applyMetadata s projectData;
                    s2 = importVideo s1 z;
                    refresh =
                      (\<lambda>s3. if csvData s3 \<noteq> None \<and> csvTimesSeconds s3 \<noteq> []
                            then updateChartsForVideoTime s3
                                   (Num (if currentTime = 0 then 0 else currentTime))
                            else s3)
                in case firstFile (\<lambda>e. endsWith (toLowerCase (relativePath e)) ''.csv'') (data_folder z) of
                     None \<Rightarrow> saveProjectToLocal (refresh s2) (Some projectData)
                   | Some csvEntry \<Rightarrow>
                       (let lines = nonBlankLines (content csvEntry)
                        in if lines = [] then Inr s2
                           else
                             (let headers = map trim (split (hd lines) (CHR '',''));
                                  rows = parseLines headers (tl lines);
                                  s3 = s2\<lparr> csvData := Some rows, csvTimesSeconds := timeAxis rows \<rparr>;
                                  s4 = updateImuChartsFull (initImuCharts s3)
                              in saveProjectToLocal (refresh s4) (Some projectData))))))"

text \<open>The metadata-only branch: a JSON project file.\<close>

definition importJson :: "app \<Rightarrow> jsonText \<Rightarrow> js_error + app" where
  "importJson s t =
     (case JSON_parse t of
        Inl err \<Rightarrow> Inr s
      | Inr projectData \<Rightarrow> saveProjectToLocal (applyMetadata s projectData) (Some projectData))"

text \<open>
  \<open>importProject\<close>, once the user has picked a file: the extension selects the branch; a
  file that is not what its branch reads is reported by an alert and changes nothing.
\<close>

definition importProject :: "app \<Rightarrow> projectFile \<Rightarrow> real \<Rightarrow> js_error + app" where
  "importProject s file currentTime =
     (if endsWith (toLowerCase (file_name file)) ''.zip'' then
        (if \<not> window_JSZip s then Inr s
         else
           (case file_content file of
              ZipContent z \<Rightarrow> importZip s z currentTime
            | JsonContent t \<Rightarrow> Inr s))
      else
        (case file_content file of
           JsonContent t \<Rightarrow> importJson s t
         | ZipContent z \<Rightarrow> Inr s))"

text \<open>The four fields of the aggregate that a save or an export would write for a state.\<close>

record aggregate =
  ag_syncOffset :: real
  ag_timestamps :: "annotation list"
  ag_notes :: string
  ag_sampleRate :: real

definition aggregateOf :: "app \<Rightarrow> aggregate" where
  "aggregateOf s =
     \<lparr> ag_syncOffset = syncOffset s, ag_timestamps = timestamps s,
       ag_notes = notesInput_value s, ag_sampleRate = SAMPLE_RATE_HZ \<rparr>"

section \<open>Concrete scenarios\<close>

text \<open>States and inputs at which the properties below are instantiated.\<close>

definition csvDemoText :: string where
  "csvDemoText = ''ax,ay'' @ [CHR 0x0A] @ ''1.5,2'' @ [CHR 0x0D, CHR 0x0A] @ ''abc,-3''"

text \<open>The example of the windowed view: the offset is the double nearest to 4.2.\<close>

definition viewDemo :: app where
  "viewDemo = (csvOnload initialApp csvDemoText)\<lparr>syncOffset := fl 4.2\<rparr>"

text \<open>An offset so far from the video time that the half window is below its precision.\<close>

definition farDemo :: app where
  "farDemo = (csvOnload initialApp csvDemoText)\<lparr>syncOffset := - (2 ^ 60)\<rparr>"

definition markedDemo :: app where
  "markedDemo = markVideoClick (csvOnload initialApp csvDemoText) 5.25"

text \<open>
  Two runs of the synchronizer up to the apply button: the video marked at 5.25 s and the
  slider at the start of the data; the video marked at the double nearest to 5.2 s and
  the slider at 0.005 s, which selects the second sample.
\<close>

definition syncDemo :: app where
  "syncDemo =
     markDataClick
       (dataSliderInput (markVideoClick (csvOnload initialApp csvDemoText) 5.25) ''0'')"

definition roundingDemo :: app where
  "roundingDemo =
     markDataClick
       (dataSliderInput (markVideoClick (csvOnload initialApp csvDemoText) (fl 5.2)) ''0.005'')"

definition annDemo :: app where
  "annDemo =
     initialApp\<lparr> timestamps :=
       [\<lparr> a_time = 1.5, a_label = ''jump'', a_eventType = ''jump'', a_notes = [] \<rparr>,
        \<lparr> a_time = 3, a_label = ''0:03.00'', a_eventType = ''other'', a_notes = ''clap'' \<rparr>] \<rparr>"

definition mediaDemo :: app where
  "mediaDemo =
     setCurrentVideoFileInfo annDemo (Some \<lparr> fi_name = ''clip.mp4'', fi_size = 1234 \<rparr>)"




definition poseA :: pose where
  "poseA = [\<lparr> kp_name = ''nose'', kp_x = 320, kp_y = 100, kp_score = 0.9 \<rparr>]"

definition poseB :: pose where
  "poseB = [\<lparr> kp_name = ''nose'', kp_x = 330, kp_y = 104, kp_score = 0.8 \<rparr>]"

definition mkTick :: "pose option \<Rightarrow> real \<Rightarrow> tick" where
  "mkTick est ms =
     \<lparr> readyState = 4, estimatePoses = est, performance_now = ms, video_currentTime = ms / 1000 \<rparr>"

definition uploadDemo :: app where
  "uploadDemo =
     handleStart ((csvOnload initialApp csvDemoText)\<lparr>currentMode := Upload, uploadedVideoReady := True\<rparr>)"

definition steadyTicks :: "tick list" where
  "steadyTicks = [mkTick (Some poseA) 1000, mkTick (Some poseB) 1016, mkTick (Some poseA) 1033]"

definition lostTicks :: "tick list" where
  "lostTicks = [mkTick (Some poseA) 1000, mkTick None 1016, mkTick (Some poseB) 1033]"

text \<open>
  Four ticks at 0, 10, 20 and 40 ms after a first tick 5000 ms into the page: with a pose
  on every tick, and with no pose found on the last one.
\<close>

definition throttleTicks :: "tick list" where
  "throttleTicks =
     [mkTick (Some poseA) 5000, mkTick (Some poseA) 5010, mkTick (Some poseA) 5020,
      mkTick (Some poseA) 5040]"

definition noPoseTicks :: "tick list" where
  "noPoseTicks =
     [mkTick (Some poseA) 5000, mkTick (Some poseA) 5010, mkTick (Some poseA) 5020,
      mkTick None 5040]"

definition dupText :: string where
  "dupText = ''a,a'' @ [CHR 0x0A] @ ''x,5''"

definition protoText :: string where
  "protoText = ''__proto__,ax'' @ [CHR 0x0A] @ ''x,5''"

definition exportDemo :: app where
  "exportDemo = mediaDemo\<lparr>syncOffset := 4.25, notesInput_value := ''left knee''\<rparr>"

definition exportDemoEnv :: exportEnv where
  "exportDemoEnv =
     \<lparr> videoBlob = Some \<lparr> blob_type = ''video/webm'', blob_bytes = ''0123456789'' \<rparr>,
       promptAnswer = ''session1'' \<rparr>"

section \<open>Properties\<close>

subsection \<open>Rounding\<close>

lemma pow2_pos: "0 < pow2 q"
  by (simp add: pow2_def)

lemma pow2_Suc: "pow2 (q + 1) = 2 * pow2 q"
proof (cases "0 \<le> q")
  case True
  then show ?thesis by (simp add: pow2_def nat_add_distrib)
next
  case False
  then have "nat (- q) = Suc (nat (- (q + 1)))" by simp
  then show ?thesis using False by (auto simp: pow2_def)
qed

lemma pow2_powr: "pow2 q = 2 powr (real_of_int q)"
  by (cases "0 \<le> q") (simp_all add: pow2_def powr_realpow[symmetric] powr_minus_divide)

lemma pow2_add: "pow2 (a + b) = pow2 a * pow2 b"
  by (simp add: pow2_powr powr_add)

lemma pow2_mono: "a \<le> b \<Longrightarrow> pow2 a \<le> pow2 b"
  by (simp add: pow2_powr)

lemma pow2_numeral: "pow2 53 = 9007199254740992" "pow2 52 = 4503599627370496"
  by (simp_all add: pow2_def)

lemma pow2_53: "pow2 (k + 1) = 9007199254740992 * pow2 (k - 52)"
proof -
  have "pow2 (53 + (k - 52)) = pow2 53 * pow2 (k - 52)" by (rule pow2_add)
  moreover have "53 + (k - 52) = k + 1" by simp
  ultimately show ?thesis by (simp only: pow2_numeral)
qed

lemma pow2_52: "pow2 k = 4503599627370496 * pow2 (k - 52)"
proof -
  have "pow2 (52 + (k - 52)) = pow2 52 * pow2 (k - 52)" by (rule pow2_add)
  moreover have "52 + (k - 52) = k" by simp
  ultimately show ?thesis by (simp only: pow2_numeral)
qed

lemma expUp_bounds:
  assumes "1 \<le> x" and "n \<le> 1023"
  shows "n \<le> expUp x n \<and> expUp x n \<le> 1023
       \<and> pow2 (expUp x n - n) \<le> x
       \<and> (expUp x n < 1023 \<longrightarrow> x < pow2 (expUp x n - n + 1))"
  using assms
proof (induction x n rule: expUp.induct)
  case (1 x n)
  show ?case
  proof (cases "x < 2 \<or> 1023 \<le> n")
    case True
    then have e: "expUp x n = n" by (subst expUp.simps) simp
    show ?thesis using True 1(2,3) by (auto simp: e pow2_def)
  next
    case False
    then have e: "expUp x n = expUp (x / 2) (n + 1)" by (subst expUp.simps) simp
    have ih: "n + 1 \<le> expUp (x / 2) (n + 1) \<and> expUp (x / 2) (n + 1) \<le> 1023
       \<and> pow2 (expUp (x / 2) (n + 1) - (n + 1)) \<le> x / 2
       \<and> (expUp (x / 2) (n + 1) < 1023 \<longrightarrow> x / 2 < pow2 (expUp (x / 2) (n + 1) - (n + 1) + 1))"
      using False 1 by (intro 1(1)) auto
    have s: "pow2 (expUp (x / 2) (n + 1) - n) = 2 * pow2 (expUp (x / 2) (n + 1) - (n + 1))"
      using pow2_Suc[of "expUp (x / 2) (n + 1) - (n + 1)"] by (simp add: algebra_simps)
    have s2: "pow2 (expUp (x / 2) (n + 1) - n + 1) = 2 * pow2 (expUp (x / 2) (n + 1) - (n + 1) + 1)"
      using pow2_Suc[of "expUp (x / 2) (n + 1) - (n + 1) + 1"] by (simp add: algebra_simps)
    show ?thesis unfolding e s s2 using ih by auto
  qed
qed

lemma expDown_bounds:
  assumes "0 < x" and "x < 1" and "- 1022 \<le> n"
  shows "- 1022 \<le> expDown x n \<and> expDown x n \<le> n
       \<and> x < pow2 (expDown x n - n + 1)
       \<and> (- 1022 < expDown x n \<longrightarrow> pow2 (expDown x n - n) \<le> x)"
  using assms
proof (induction x n rule: expDown.induct)
  case (1 x n)
  show ?case
  proof (cases "n \<le> - 1022")
    case True
    then have e: "expDown x n = n" by (subst expDown.simps) simp
    show ?thesis unfolding e using True 1(2-4) by (auto simp: pow2_def)
  next
    case False
    with 1(3) have e: "expDown x n = expDown (2 * x) (n - 1)" by (subst expDown.simps) simp
    show ?thesis
    proof (cases "2 * x < 1")
      case True
      have ih: "- 1022 \<le> expDown (2 * x) (n - 1) \<and> expDown (2 * x) (n - 1) \<le> n - 1
       \<and> 2 * x < pow2 (expDown (2 * x) (n - 1) - (n - 1) + 1)
       \<and> (- 1022 < expDown (2 * x) (n - 1) \<longrightarrow> pow2 (expDown (2 * x) (n - 1) - (n - 1)) \<le> 2 * x)"
        using False True 1 by (intro 1(1)) auto
      have s: "pow2 (expDown (2 * x) (n - 1) - (n - 1)) = 2 * pow2 (expDown (2 * x) (n - 1) - n)"
        using pow2_Suc[of "expDown (2 * x) (n - 1) - n"] by (simp add: algebra_simps)
      have s2: "pow2 (expDown (2 * x) (n - 1) - (n - 1) + 1) = 2 * pow2 (expDown (2 * x) (n - 1) - n + 1)"
        using pow2_Suc[of "expDown (2 * x) (n - 1) - n + 1"] by (simp add: algebra_simps)
      show ?thesis unfolding e using ih unfolding s s2 by auto
    next
      case False2: False
      then have e2: "expDown (2 * x) (n - 1) = n - 1" by (subst expDown.simps) simp
      have "pow2 (- 1) = 1 / 2" by (simp add: pow2_def)
      then show ?thesis unfolding e e2 using False2 1(2,3) False by (auto simp: pow2_def)
    qed
  qed
qed

lemma binade_bounds:
  assumes "x \<noteq> 0"
  shows "- 1022 \<le> binade x \<and> binade x \<le> 1023
       \<and> (binade x < 1023 \<longrightarrow> \<bar>x\<bar> < pow2 (binade x + 1))
       \<and> (- 1022 < binade x \<longrightarrow> pow2 (binade x) \<le> \<bar>x\<bar>)"
proof (cases "1 \<le> \<bar>x\<bar>")
  case True
  with expUp_bounds[of "\<bar>x\<bar>" 0] show ?thesis by (auto simp: binade_def)
next
  case False
  with assms expDown_bounds[of "\<bar>x\<bar>" 0] show ?thesis by (auto simp: binade_def)
qed

lemma binade_normal:
  assumes "- 1022 \<le> k" and "k \<le> 1023" and "pow2 k \<le> \<bar>x\<bar>" and "\<bar>x\<bar> < pow2 (k + 1)"
  shows "binade x = k"
proof -
  have nz: "x \<noteq> 0" using assms(3) pow2_pos[of k] by auto
  note b = binade_bounds[OF nz]
  show ?thesis
  proof (rule ccontr)
    assume ne: "binade x \<noteq> k"
    show False
    proof (cases "binade x < k")
      case True
      then have "\<bar>x\<bar> < pow2 (binade x + 1)" using b assms(2) by auto
      also have "\<dots> \<le> pow2 k" using True by (intro pow2_mono) auto
      finally show False using assms(3) by simp
    next
      case False
      with ne have gt: "k + 1 \<le> binade x" by simp
      then have "pow2 (binade x) \<le> \<bar>x\<bar>" using b assms(1) by auto
      moreover have "pow2 (k + 1) \<le> pow2 (binade x)" using gt by (rule pow2_mono)
      ultimately show False using assms(4) by simp
    qed
  qed
qed

lemma binade_subnormal:
  assumes "x \<noteq> 0" and "\<bar>x\<bar> < pow2 (- 1022)"
  shows "binade x = - 1022"
proof -
  note b = binade_bounds[OF assms(1)]
  show ?thesis
  proof (rule ccontr)
    assume "binade x \<noteq> - 1022"
    with b have gt: "- 1022 < binade x" by auto
    then have "pow2 (binade x) \<le> \<bar>x\<bar>" using b by auto
    moreover have "pow2 (- 1022) \<le> pow2 (binade x)" using gt by (intro pow2_mono) auto
    ultimately show False using assms(2) by simp
  qed
qed

text \<open>How a number of a known binary exponent rounds.\<close>

lemma fl_normal:
  assumes "- 1022 \<le> k" and "k \<le> 1023" and "pow2 k \<le> \<bar>x\<bar>" and "\<bar>x\<bar> < pow2 (k + 1)"
  shows "fl x = of_int (roundHalfEven (x / pow2 (k - 52))) * pow2 (k - 52)"
proof -
  have "x \<noteq> 0" using assms(3) pow2_pos[of k] by auto
  then show ?thesis by (simp add: fl_def Let_def binade_normal[OF assms])
qed

lemma fl_subnormal:
  assumes "x \<noteq> 0" and "\<bar>x\<bar> < pow2 (- 1022)"
  shows "fl x = of_int (roundHalfEven (x / pow2 (- 1074))) * pow2 (- 1074)"
  using assms by (simp add: fl_def Let_def binade_subnormal)

lemma fl_0: "fl 0 = 0"
  by (simp add: fl_def)

lemma roundHalfEven_int: "roundHalfEven (of_int n) = n"
  by (simp add: roundHalfEven_def)

lemma roundHalfEven_le: "y \<le> of_int n \<Longrightarrow> roundHalfEven y \<le> n"
proof -
  assume h: "y \<le> of_int n"
  have f: "\<lfloor>y\<rfloor> \<le> n" using h by (simp add: floor_le_iff)
  show ?thesis
  proof (cases "\<lfloor>y\<rfloor> = n")
    case True
    then have "y - of_int \<lfloor>y\<rfloor> \<le> 0" using h by simp
    then show ?thesis using True by (simp add: roundHalfEven_def Let_def)
  next
    case False
    with f have "\<lfloor>y\<rfloor> + 1 \<le> n" by simp
    then show ?thesis using f by (simp add: roundHalfEven_def Let_def)
  qed
qed

lemma roundHalfEven_ge: "of_int n \<le> y \<Longrightarrow> n \<le> roundHalfEven y"
proof -
  assume h: "of_int n \<le> y"
  have f: "n \<le> \<lfloor>y\<rfloor>" using h by (simp add: le_floor_iff)
  then show ?thesis by (simp add: roundHalfEven_def Let_def)
qed

lemma roundHalfEven_mono: "y \<le> z \<Longrightarrow> roundHalfEven y \<le> roundHalfEven z"
proof -
  assume h: "y \<le> z"
  then have f: "\<lfloor>y\<rfloor> \<le> \<lfloor>z\<rfloor>" by (rule floor_mono)
  show ?thesis
  proof (cases "\<lfloor>y\<rfloor> = \<lfloor>z\<rfloor>")
    case True
    then have "y - of_int \<lfloor>y\<rfloor> \<le> z - of_int \<lfloor>z\<rfloor>" using h by simp
    then show ?thesis using True by (auto simp: roundHalfEven_def Let_def)
  next
    case False
    with f have "\<lfloor>y\<rfloor> + 1 \<le> \<lfloor>z\<rfloor>" by simp
    moreover have "roundHalfEven y \<le> \<lfloor>y\<rfloor> + 1" by (simp add: roundHalfEven_def Let_def)
    moreover have "\<lfloor>z\<rfloor> \<le> roundHalfEven z" by (simp add: roundHalfEven_def Let_def)
    ultimately show ?thesis by linarith
  qed
qed

lemma roundHalfEven_neg: "roundHalfEven (- y) = - roundHalfEven y"
proof (cases "y = of_int \<lfloor>y\<rfloor>")
  case True
  then obtain n where "y = of_int n" ..
  then have "- y = of_int (- n)" by simp
  then have "roundHalfEven (- y) = - n" by (simp only: roundHalfEven_int)
  with \<open>y = of_int n\<close> show ?thesis by (simp add: roundHalfEven_int)
next
  case False
  then have lt: "of_int \<lfloor>y\<rfloor> < y" using of_int_floor_le[of y] by linarith
  have "y < of_int \<lfloor>y\<rfloor> + 1" by linarith
  with lt have fl: "\<lfloor>- y\<rfloor> = - \<lfloor>y\<rfloor> - 1" by (intro floor_unique) (simp_all, linarith+)
  have ev: "even (- \<lfloor>y\<rfloor> - 1) = odd \<lfloor>y\<rfloor>" by simp
  show ?thesis
    unfolding roundHalfEven_def Let_def fl ev
    by (auto simp: algebra_simps)
qed

lemma fl_neg: "fl (- x) = - fl x"
  by (simp add: fl_def Let_def binade_def roundHalfEven_neg)

lemma fl_upper:
  assumes "0 < x" and "x < pow2 (k + 1)" and "binade x = k"
  shows "fl x \<le> pow2 (k + 1)"
proof -
  have "x < 9007199254740992 * pow2 (k - 52)" using assms(2) by (simp only: pow2_53[of k])
  then have "x / pow2 (k - 52) \<le> 9007199254740992"
    using pow2_pos[of "k - 52"] by (simp add: pos_divide_le_eq)
  then have "x / pow2 (k - 52) \<le> of_int 9007199254740992" by simp
  then have "roundHalfEven (x / pow2 (k - 52)) \<le> 9007199254740992"
    by (rule roundHalfEven_le)
  then have "real_of_int (roundHalfEven (x / pow2 (k - 52))) \<le> 9007199254740992"
    by linarith
  then have "real_of_int (roundHalfEven (x / pow2 (k - 52))) * pow2 (k - 52)
               \<le> 9007199254740992 * pow2 (k - 52)"
    using pow2_pos[of "k - 52"] by (simp add: mult_right_mono)
  then have "real_of_int (roundHalfEven (x / pow2 (k - 52))) * pow2 (k - 52) \<le> pow2 (k + 1)"
    by (simp only: pow2_53[of k])
  then show ?thesis using assms(1,3) by (simp add: fl_def Let_def)
qed

lemma fl_lower:
  assumes "pow2 k \<le> x" and "binade x = k"
  shows "pow2 k \<le> fl x"
proof -
  have pos: "0 < x" using assms(1) pow2_pos[of k] by linarith
  have "4503599627370496 * pow2 (k - 52) \<le> x" using assms(1) by (simp only: pow2_52[of k])
  then have "4503599627370496 \<le> x / pow2 (k - 52)"
    using pow2_pos[of "k - 52"] by (simp add: pos_le_divide_eq)
  then have "of_int 4503599627370496 \<le> x / pow2 (k - 52)" by simp
  then have "4503599627370496 \<le> roundHalfEven (x / pow2 (k - 52))"
    by (rule roundHalfEven_ge)
  then have "4503599627370496 \<le> real_of_int (roundHalfEven (x / pow2 (k - 52)))"
    by linarith
  then have "4503599627370496 * pow2 (k - 52)
               \<le> real_of_int (roundHalfEven (x / pow2 (k - 52))) * pow2 (k - 52)"
    using pow2_pos[of "k - 52"] by (simp add: mult_right_mono)
  then have "pow2 k \<le> real_of_int (roundHalfEven (x / pow2 (k - 52))) * pow2 (k - 52)"
    by (simp only: pow2_52[of k])
  then show ?thesis using pos assms(2) by (simp add: fl_def Let_def)
qed

lemma fl_nonneg: "0 \<le> x \<Longrightarrow> 0 \<le> fl x"
proof -
  assume h: "0 \<le> x"
  have "of_int 0 \<le> x / pow2 (binade x - 52)" using h pow2_pos[of "binade x - 52"] by simp
  then have "0 \<le> roundHalfEven (x / pow2 (binade x - 52))" by (rule roundHalfEven_ge)
  then show ?thesis using pow2_pos[of "binade x - 52"] by (simp add: fl_def Let_def)
qed

lemma fl_mono_pos:
  assumes "0 < x" and "x \<le> y"
  shows "fl x \<le> fl y"
proof -
  have ypos: "0 < y" using assms by linarith
  have xnz: "x \<noteq> 0" and ynz: "y \<noteq> 0" using assms(1) ypos by simp_all
  note bx = binade_bounds[OF xnz] and by' = binade_bounds[OF ynz]
  have le: "binade x \<le> binade y"
  proof (rule ccontr)
    assume "\<not> binade x \<le> binade y"
    then have gt: "binade y + 1 \<le> binade x" by simp
    then have "pow2 (binade x) \<le> x" using bx by' assms(1) by auto
    moreover have "y < pow2 (binade y + 1)" using by' bx gt ypos by auto
    moreover have "pow2 (binade y + 1) \<le> pow2 (binade x)" using gt by (rule pow2_mono)
    ultimately show False using assms(2) by linarith
  qed
  show ?thesis
  proof (cases "binade x = binade y")
    case True
    have "x / pow2 (binade y - 52) \<le> y / pow2 (binade y - 52)"
      using assms(2) pow2_pos[of "binade y - 52"] by (simp add: divide_right_mono)
    then have "roundHalfEven (x / pow2 (binade y - 52)) \<le> roundHalfEven (y / pow2 (binade y - 52))"
      by (rule roundHalfEven_mono)
    then have "real_of_int (roundHalfEven (x / pow2 (binade y - 52))) * pow2 (binade y - 52)
           \<le> real_of_int (roundHalfEven (y / pow2 (binade y - 52))) * pow2 (binade y - 52)"
      using pow2_pos[of "binade y - 52"] by (simp add: mult_right_mono)
    then show ?thesis using True assms(1) ypos by (simp add: fl_def Let_def)
  next
    case False
    with le have lt: "binade x + 1 \<le> binade y" by simp
    have "x < pow2 (binade x + 1)" using bx by' lt assms(1) by auto
    then have a: "fl x \<le> pow2 (binade x + 1)" using assms(1) by (intro fl_upper) simp_all
    have "pow2 (binade y) \<le> y" using bx by' lt ypos by auto
    then have b: "pow2 (binade y) \<le> fl y" by (intro fl_lower) simp_all
    have "pow2 (binade x + 1) \<le> pow2 (binade y)" using lt by (rule pow2_mono)
    with a b show ?thesis by linarith
  qed
qed

text \<open>Rounding is monotone.\<close>

lemma fl_mono: "x \<le> y \<Longrightarrow> fl x \<le> fl y"
proof -
  assume h: "x \<le> y"
  consider "0 < x" | "x \<le> 0" "0 \<le> y" | "y < 0" by linarith
  then show ?thesis
  proof cases
    case 1
    then show ?thesis using h by (rule fl_mono_pos)
  next
    case 2
    have "0 \<le> fl (- x)" using 2(1) by (intro fl_nonneg) simp
    then have "fl x \<le> 0" by (simp add: fl_neg)
    moreover have "0 \<le> fl y" using 2(2) by (rule fl_nonneg)
    ultimately show ?thesis by linarith
  next
    case 3
    then have "fl (- y) \<le> fl (- x)" using h by (intro fl_mono_pos) simp_all
    then show ?thesis by (simp add: fl_neg)
  qed
qed

lemma fl_pow2:
  assumes "- 1022 \<le> k" and "k \<le> 1023"
  shows "fl (pow2 k) = pow2 k"
proof -
  have lt: "\<bar>pow2 k\<bar> < pow2 (k + 1)" using pow2_pos[of k] by (simp add: pow2_Suc)
  have le: "pow2 k \<le> \<bar>pow2 k\<bar>" by simp
  have "pow2 k / pow2 (k - 52) = 4503599627370496 * pow2 (k - 52) / pow2 (k - 52)"
    by (simp only: pow2_52[of k])
  then have "pow2 k / pow2 (k - 52) = of_int 4503599627370496"
    using pow2_pos[of "k - 52"] by simp
  then have "roundHalfEven (pow2 k / pow2 (k - 52)) = 4503599627370496"
    by (simp only: roundHalfEven_int)
  then have "fl (pow2 k) = 4503599627370496 * pow2 (k - 52)"
    by (simp add: fl_normal[OF assms le lt])
  then show ?thesis by (simp only: pow2_52[of k])
qed

lemma fl_abs_le:
  assumes "- 1022 \<le> k" and "k \<le> 1023" and "\<bar>x\<bar> \<le> pow2 k"
  shows "\<bar>fl x\<bar> \<le> pow2 k"
proof -
  have "fl x \<le> fl (pow2 k)" using assms(3) by (intro fl_mono) linarith
  moreover have "fl (- pow2 k) \<le> fl x" using assms(3) by (intro fl_mono) linarith
  ultimately show ?thesis by (simp add: fl_pow2[OF assms(1,2)] fl_neg)
qed

text \<open>An integer below \<open>2\<^sup>5\<^sup>3\<close> in magnitude is a double.\<close>

lemma fl_int_pos:
  assumes "0 < n" and "n < 9007199254740992"
  shows "fl (of_int n) = of_int n"
proof -
  let ?x = "real_of_int n"
  have nz: "?x \<noteq> 0" using assms(1) by simp
  note b = binade_bounds[OF nz]
  have lo: "0 \<le> binade ?x"
  proof (rule ccontr)
    assume "\<not> 0 \<le> binade ?x"
    then have neg: "binade ?x + 1 \<le> 0" by simp
    then have "\<bar>?x\<bar> < pow2 (binade ?x + 1)" using b by auto
    moreover have "pow2 (binade ?x + 1) \<le> pow2 0" using neg by (rule pow2_mono)
    moreover have "pow2 0 = 1" by (simp add: pow2_def)
    ultimately show False using assms(1) by simp
  qed
  have hi: "binade ?x \<le> 52"
  proof (rule ccontr)
    assume "\<not> binade ?x \<le> 52"
    then have big: "53 \<le> binade ?x" by simp
    then have "pow2 (binade ?x) \<le> \<bar>?x\<bar>" using b by auto
    moreover have "pow2 53 \<le> pow2 (binade ?x)" using big by (rule pow2_mono)
    ultimately have "9007199254740992 \<le> ?x" using assms(1) by (simp add: pow2_numeral)
    then show False using assms(2) by linarith
  qed
  define m where "m = nat (52 - binade ?x)"
  have q: "pow2 (binade ?x - 52) = 1 / 2 ^ m"
    using hi by (auto simp: pow2_def m_def)
  have "?x / pow2 (binade ?x - 52) = of_int (n * 2 ^ m)" by (simp add: q)
  then have "roundHalfEven (?x / pow2 (binade ?x - 52)) = n * 2 ^ m"
    by (simp only: roundHalfEven_int)
  then show ?thesis using nz by (simp add: fl_def Let_def q)
qed

lemma fl_int:
  assumes "\<bar>n\<bar> < 9007199254740992"
  shows "fl (of_int n) = of_int n"
proof -
  consider "0 < n" | "n = 0" | "n < 0" by linarith
  then show ?thesis
  proof cases
    case 1
    then show ?thesis using assms by (intro fl_int_pos) simp_all
  next
    case 2
    then show ?thesis by (simp add: fl_0)
  next
    case 3
    then have "fl (of_int (- n)) = of_int (- n)" using assms by (intro fl_int_pos) simp_all
    then show ?thesis by (simp add: fl_neg)
  qed
qed

lemma fl_le_int:
  assumes "\<bar>n\<bar> < 9007199254740992"
  shows "x \<le> of_int n \<Longrightarrow> fl x \<le> of_int n"
  using fl_mono[of x "of_int n"] fl_int[OF assms] by simp

subsection \<open>Numbers\<close>

lemma overflowBound_ge: "pow2 1023 \<le> overflowBound"
proof -
  have "pow2 970 \<le> pow2 1023" by (rule pow2_mono) simp
  moreover have "pow2 1024 = 2 * pow2 1023" using pow2_Suc[of 1023] by simp
  ultimately show ?thesis by (simp add: overflowBound_def)
qed

lemma js_round_pow2:
  assumes "\<bar>x\<bar> \<le> pow2 k" and "k < 1023"
  shows "js_round x = Num (fl x)"
proof -
  have "pow2 (k + 1) \<le> pow2 1023" using assms(2) by (intro pow2_mono) simp
  moreover have "pow2 k < pow2 (k + 1)" using pow2_pos[of k] by (simp add: pow2_Suc)
  ultimately have "\<bar>x\<bar> < overflowBound" using assms(1) overflowBound_ge by linarith
  then show ?thesis by (auto simp: js_round_def)
qed

lemma js_round_small: "\<bar>x\<bar> \<le> 1000000 \<Longrightarrow> js_round x = Num (fl x)"
proof -
  assume "\<bar>x\<bar> \<le> 1000000"
  moreover have "pow2 20 = 1048576" by (simp add: pow2_def)
  ultimately have "\<bar>x\<bar> \<le> pow2 20" by linarith
  then show ?thesis by (rule js_round_pow2) simp
qed

text \<open>The numbers of the scenarios, as doubles.\<close>

lemma fl_small_ints:
  "fl 1 = 1" "fl 2 = 2" "fl 3 = 3" "fl 5 = 5" "fl 10 = 10" "fl 20 = 20" "fl 33 = 33"
  "fl 40 = 40" "fl 100 = 100" "fl 5000 = 5000"
  using fl_int[of 1] fl_int[of 2] fl_int[of 3] fl_int[of 5] fl_int[of 10] fl_int[of 20]
    fl_int[of 33] fl_int[of 40] fl_int[of 100] fl_int[of 5000]
  by simp_all

lemma fl_halves: "fl (3 / 2) = 3 / 2" "fl (5 / 2) = 5 / 2" "fl (21 / 4) = 21 / 4"
  "fl (17 / 4) = 17 / 4"
proof -
  show "fl (3 / 2) = 3 / 2"
    by (subst fl_normal[of 0]) (simp_all add: pow2_def roundHalfEven_def)
  show "fl (5 / 2) = 5 / 2"
    by (subst fl_normal[of 1]) (simp_all add: pow2_def roundHalfEven_def)
  show "fl (21 / 4) = 21 / 4"
    by (subst fl_normal[of 2]) (simp_all add: pow2_def roundHalfEven_def)
  show "fl (17 / 4) = 17 / 4"
    by (subst fl_normal[of 2]) (simp_all add: pow2_def roundHalfEven_def)
qed

lemma fl_5_2: "fl 5.2 = 5854679515581645 / 1125899906842624"
  by (subst fl_normal[of 2]) (simp_all add: pow2_def roundHalfEven_def)

lemma fl_1_104: "fl (1 / 104) = 1385722962267845 / 144115188075855872"
  by (subst fl_normal[of "- 7"]) (simp_all add: pow2_def roundHalfEven_def)

lemma fl_1_200: "fl (1 / 200) = 5764607523034235 / 1152921504606846976"
  by (subst fl_normal[of "- 8"]) (simp_all add: pow2_def roundHalfEven_def)

subsection \<open>Helper facts\<close>

lemmas parseFloat_eval =
  parseFloat_def trimStart_def isWhiteSpace_def parseUnsigned_def startsWith_def isDigit_def
  digitsValue_def parseExponent_def scale10_def js_round_small fl_0 fl_neg fl_small_ints
  fl_halves

lemma save_returns: "\<exists>s'. saveProjectToLocal s extra = Inr s'"
  by (auto simp: saveProjectToLocal_def Let_def split: option.splits sum.splits)

lemma save_keeps:
  assumes "saveProjectToLocal s extra = Inr s'"
  shows "syncOffset s' = syncOffset s" and "videoMarkedTime s' = videoMarkedTime s"
    and "dataMarkedTime s' = dataMarkedTime s" and "timestamps s' = timestamps s"
    and "notesInput_value s' = notesInput_value s"
    and "setSyncBtn_disabled s' = setSyncBtn_disabled s"
    and "currentVideoFileInfo s' = currentVideoFileInfo s"
  using assms
  by (auto simp: saveProjectToLocal_def Let_def split: option.splits if_splits sum.splits)

lemma setSyncClick_both:
  assumes "videoMarkedTime s = Some v" and "dataMarkedTime s = Some d"
  shows "\<exists>s'. setSyncClick s = Inr s' \<and> syncOffset s' = fl (v - d)
           \<and> videoMarkedTime s' = None \<and> dataMarkedTime s' = None \<and> setSyncBtn_disabled s'"
proof -
  let ?s2 = "s\<lparr> syncOffset := fl (v - d), videoMarkedTime := None, dataMarkedTime := None,
               setSyncBtn_disabled := True \<rparr>"
  obtain s' where s': "saveProjectToLocal ?s2 None = Inr s'"
    using save_returns by blast
  have "setSyncClick s = Inr s'"
    using s' assms by (simp add: setSyncClick_def)
  with save_keeps[OF s'] show ?thesis by simp
qed

lemma setSyncClick_missing:
  "videoMarkedTime s = None \<or> dataMarkedTime s = None \<Longrightarrow> setSyncClick s = Inr s"
  by (auto simp: setSyncClick_def split: option.splits)

lemma updateCharts_keeps:
  "isRunning (updateChartsForVideoTime s vt) = isRunning s"
  "currentMode (updateChartsForVideoTime s vt) = currentMode s"
  "csvData (updateChartsForVideoTime s vt) = csvData s"
  "csvTimesSeconds (updateChartsForVideoTime s vt) = csvTimesSeconds s"
  "imuPanel_shown (updateChartsForVideoTime s vt) = imuPanel_shown s"
  "lastImuUpdateTime (updateChartsForVideoTime s vt) = lastImuUpdateTime s"
  "frameIndex (updateChartsForVideoTime s vt) = frameIndex s"
  "lastPose (updateChartsForVideoTime s vt) = lastPose s"
  "syncOffset (updateChartsForVideoTime s vt) = syncOffset s"
  "videoMarkedTime (updateChartsForVideoTime s vt) = videoMarkedTime s"
  "dataMarkedTime (updateChartsForVideoTime s vt) = dataMarkedTime s"
  "timestamps (updateChartsForVideoTime s vt) = timestamps s"
  "notesInput_value (updateChartsForVideoTime s vt) = notesInput_value s"
  "setSyncBtn_disabled (updateChartsForVideoTime s vt) = setSyncBtn_disabled s"
  by (simp_all add: updateChartsForVideoTime_def Let_def)

subsection \<open>The sample CSV text\<close>

lemma nonBlank_demo: "nonBlankLines csvDemoText = [''ax,ay'', ''1.5,2'', ''abc,-3'']"
  by (simp add: nonBlankLines_def csvDemoText_def splitLines_def trim_def isWhiteSpace_def)

lemma parseRow_demo1: "parseRow [''ax'', ''ay''] ''1.5,2'' = [(''ax'', 1.5), (''ay'', 2)]"
  by (simp add: parseRow_def split_def enumerate_eq_zip upt_rec fieldAt_def finiteOrZero_def
      isFinite_def obj_set_def parseFloat_eval)

lemma parseRow_demo2: "parseRow [''ax'', ''ay''] ''abc,-3'' = [(''ax'', 0), (''ay'', -3)]"
  by (simp add: parseRow_def split_def enumerate_eq_zip upt_rec fieldAt_def finiteOrZero_def
      isFinite_def obj_set_def parseFloat_eval)

lemma csvDemo_rows:
  "csvData (csvOnload initialApp csvDemoText) = Some [[(''ax'', 1.5), (''ay'', 2)], [(''ax'', 0), (''ay'', -3)]]"
  by (simp add: csvOnload_def nonBlank_demo Let_def split_def trim_def isWhiteSpace_def
      parseRow_demo1 parseRow_demo2 updateImuChartsFull_def initImuCharts_def initialApp_def timeAxis_def)

lemma csvDemo_times:
  "csvTimesSeconds (csvOnload initialApp csvDemoText) = [0, fl (1 / 104)]"
  by (simp add: csvOnload_def nonBlank_demo Let_def split_def trim_def isWhiteSpace_def
      parseRow_demo1 parseRow_demo2 updateImuChartsFull_def initImuCharts_def initialApp_def
      timeAxis_def SAMPLE_RATE_HZ_def upt_rec fl_0)

lemma csvDemo_charts: "hasCharts (csvOnload initialApp csvDemoText)"
  by (simp add: csvOnload_def nonBlank_demo Let_def split_def trim_def isWhiteSpace_def
      parseRow_demo1 parseRow_demo2 updateImuChartsFull_def initImuCharts_def initialApp_def timeAxis_def hasCharts_def)

lemma csvDemo_loaded:
  "csvData (csvOnload initialApp csvDemoText) \<noteq> None
   \<and> csvTimesSeconds (csvOnload initialApp csvDemoText) \<noteq> []"
  by (simp add: csvDemo_rows csvDemo_times)

lemma csvDemo_marks:
  "videoMarkedTime (csvOnload initialApp csvDemoText) = None
   \<and> dataMarkedTime (csvOnload initialApp csvDemoText) = None"
  by (simp add: csvOnload_def nonBlank_demo Let_def updateImuChartsFull_def initImuCharts_def
      initialApp_def timeAxis_def)

lemma csvDemo_fields:
  "isRunning (csvOnload initialApp csvDemoText) = False"
  "lastImuUpdateTime (csvOnload initialApp csvDemoText) = 0"
  "imuPanel_shown (csvOnload initialApp csvDemoText)"
  "syncOffset (csvOnload initialApp csvDemoText) = 0"
  by (simp_all add: csvOnload_def nonBlank_demo Let_def updateImuChartsFull_def initImuCharts_def
      initialApp_def timeAxis_def)

subsection \<open>Stream synchronizer\<close>

lemma markVideoClick_marks:
  "videoMarkedTime (markVideoClick s v) = Some v"
  "dataMarkedTime (markVideoClick s v) = dataMarkedTime s"
  "csvData (markVideoClick s v) = csvData s"
  "csvTimesSeconds (markVideoClick s v) = csvTimesSeconds s"
  by (simp_all add: markVideoClick_def checkSyncReady_def)

lemma findIndex_from_first:
  assumes "0 \<le> i"
  shows "(findIndex_from i P xs = - 1 \<and> (\<forall>x \<in> set xs. \<not> P x))
       \<or> (\<exists>k < length xs. findIndex_from i P xs = i + int k \<and> P (xs ! k)
              \<and> (\<forall>j < k. \<not> P (xs ! j)))"
  using assms
proof (induction xs arbitrary: i)
  case Nil
  then show ?case by simp
next
  case (Cons x xs)
  show ?case
  proof (cases "P x")
    case True
    then show ?thesis by auto
  next
    case False
    from Cons.prems have "0 \<le> i + 1" by simp
    from Cons.IH[OF this] show ?thesis
    proof
      assume "findIndex_from (i + 1) P xs = - 1 \<and> (\<forall>x \<in> set xs. \<not> P x)"
      with False show ?thesis by simp
    next
      assume "\<exists>k < length xs. findIndex_from (i + 1) P xs = i + 1 + int k \<and> P (xs ! k)
              \<and> (\<forall>j < k. \<not> P (xs ! j))"
      then obtain k where k: "k < length xs" "findIndex_from (i + 1) P xs = i + 1 + int k"
        "P (xs ! k)" "\<forall>j < k. \<not> P (xs ! j)" by blast
      have "\<forall>j < Suc k. \<not> P ((x # xs) ! j)"
      proof (intro allI impI)
        fix j assume "j < Suc k"
        then show "\<not> P ((x # xs) ! j)" using False k(4) by (cases j) simp_all
      qed
      with k False have "Suc k < length (x # xs) \<and> findIndex_from i P (x # xs) = i + int (Suc k)
          \<and> P ((x # xs) ! Suc k) \<and> (\<forall>j < Suc k. \<not> P ((x # xs) ! j))"
        by simp
      then show ?thesis by blast
    qed
  qed
qed

text \<open>
  The sample that the data slider selects for the time \<open>t\<close>: the first sample at or after
  \<open>t\<close>, or the last sample when all are before \<open>t\<close>.
\<close>

lemma slider_index:
  fixes ts :: "real list"
  assumes "ts \<noteq> []"
  shows "\<exists>i < length ts.
           nat (if findIndex (\<lambda>x. t \<le> x) ts = - 1 then int (length ts) - 1
                else max (findIndex (\<lambda>x. t \<le> x) ts) 0) = i
         \<and> (\<forall>j < i. ts ! j < t) \<and> (t \<le> ts ! i \<or> i = length ts - 1)"
proof -
  have len: "0 < length ts" using assms by simp
  have "(findIndex_from 0 (\<lambda>x. t \<le> x) ts = - 1 \<and> (\<forall>x \<in> set ts. \<not> t \<le> x))
       \<or> (\<exists>k < length ts. findIndex_from 0 (\<lambda>x. t \<le> x) ts = 0 + int k \<and> t \<le> ts ! k
              \<and> (\<forall>j < k. \<not> t \<le> ts ! j))"
    by (rule findIndex_from_first) simp
  then show ?thesis
  proof
    assume h: "findIndex_from 0 (\<lambda>x. t \<le> x) ts = - 1 \<and> (\<forall>x \<in> set ts. \<not> t \<le> x)"
    have "ts ! j < t" if "j < length ts" for j
    proof -
      have "ts ! j \<in> set ts" using that by simp
      with h have "\<not> t \<le> ts ! j" by blast
      then show ?thesis by simp
    qed
    then have "\<forall>j < length ts - 1. ts ! j < t" by simp
    with h len show ?thesis
      by (intro exI[of _ "length ts - 1"]) (simp add: findIndex_def nat_diff_distrib)
  next
    assume "\<exists>k < length ts. findIndex_from 0 (\<lambda>x. t \<le> x) ts = 0 + int k \<and> t \<le> ts ! k
              \<and> (\<forall>j < k. \<not> t \<le> ts ! j)"
    then obtain k where k: "k < length ts" "findIndex_from 0 (\<lambda>x. t \<le> x) ts = int k"
      "t \<le> ts ! k" "\<forall>j < k. \<not> t \<le> ts ! j" by auto
    then show ?thesis
      by (intro exI[of _ k]) (simp add: findIndex_def not_le)
  qed
qed

lemma dataSliderInput_marks:
  assumes "parseFloat val = Num t" and "csvTimesSeconds s \<noteq> []"
  shows "\<exists>i < length (csvTimesSeconds s).
           dataMarkedTime (dataSliderInput s val) = Some (csvTimesSeconds s ! i)
         \<and> (\<forall>j < i. csvTimesSeconds s ! j < t)
         \<and> (t \<le> csvTimesSeconds s ! i \<or> i = length (csvTimesSeconds s) - 1)"
proof -
  from slider_index[OF assms(2), of t] obtain i where i: "i < length (csvTimesSeconds s)"
    "nat (if findIndex (\<lambda>x. t \<le> x) (csvTimesSeconds s) = - 1
          then int (length (csvTimesSeconds s)) - 1
          else max (findIndex (\<lambda>x. t \<le> x) (csvTimesSeconds s)) 0) = i"
    "\<forall>j < i. csvTimesSeconds s ! j < t"
    "t \<le> csvTimesSeconds s ! i \<or> i = length (csvTimesSeconds s) - 1"
    by blast
  have "dataMarkedTime (dataSliderInput s val) = Some (csvTimesSeconds s ! i)"
    using assms i(2) by (simp add: dataSliderInput_def Let_def updateCharts_keeps)
  with i show ?thesis by blast
qed

lemma dataSliderInput_keeps:
  "videoMarkedTime (dataSliderInput s val) = videoMarkedTime s"
  "csvData (dataSliderInput s val) = csvData s"
  "csvTimesSeconds (dataSliderInput s val) = csvTimesSeconds s"
  "setSyncBtn_disabled (dataSliderInput s val) = setSyncBtn_disabled s"
  by (simp_all add: dataSliderInput_def Let_def updateCharts_keeps split: jsnum.splits)

lemma checkSyncReady_enabled:
  "setSyncBtn_disabled (checkSyncReady s) = (videoMarkedTime s = None \<or> dataMarkedTime s = None)"
  by (simp add: checkSyncReady_def)

lemma markDataClick_loaded:
  assumes "csvData s \<noteq> None" and "csvTimesSeconds s \<noteq> []"
  shows "markDataClick s =
           checkSyncReady (if dataMarkedTime s = None then s\<lparr>dataMarkedTime := Some 0\<rparr> else s)"
  using assms by (auto simp: markDataClick_def Let_def)

lemma adjustedTime_after:
  "adjustedTime s (Num v) = js_round (v - syncOffset s)"
  by (simp add: adjustedTime_def js_sub_def)

text \<open>
  C1. With sensor data loaded: marking the video at \<open>v\<close>, moving the data slider (to a
  position that reads as the finite number \<open>t\<close>) and marking the data leaves the video mark
  \<open>v\<close> and the data mark \<open>d\<close>, the time of the sample that the slider selects (the first
  sample at or after \<open>t\<close>, or the last sample), and the apply button enabled. Applying then returns normally, sets the
  offset to the double nearest to \<open>v - d\<close> and in the same step clears both marks.
  Afterwards the adjusted time of \<open>v\<close> is \<open>v\<close> minus the offset, rounded; it is \<open>d\<close>
  whenever \<open>v - d\<close> is a double (and \<open>d\<close> is one, as every sample time is).
\<close>

theorem apply_sync_offset:
  assumes "csvData s \<noteq> None" and "csvTimesSeconds s \<noteq> []" and "parseFloat val = Num t"
  shows "\<exists>i d s'. i < length (csvTimesSeconds s) \<and> d = csvTimesSeconds s ! i
     \<and> (\<forall>j < i. csvTimesSeconds s ! j < t) \<and> (t \<le> d \<or> i = length (csvTimesSeconds s) - 1)
     \<and> videoMarkedTime (markVideoClick s v) = Some v
     \<and> dataMarkedTime (dataSliderInput (markVideoClick s v) val) = Some d
     \<and> videoMarkedTime (markDataClick (dataSliderInput (markVideoClick s v) val)) = Some v
     \<and> dataMarkedTime (markDataClick (dataSliderInput (markVideoClick s v) val)) = Some d
     \<and> \<not> setSyncBtn_disabled (markDataClick (dataSliderInput (markVideoClick s v) val))
     \<and> setSyncClick (markDataClick (dataSliderInput (markVideoClick s v) val)) = Inr s'
     \<and> syncOffset s' = fl (v - d)
     \<and> videoMarkedTime s' = None \<and> dataMarkedTime s' = None
     \<and> adjustedTime s' (Num v) = js_round (v - fl (v - d))
     \<and> (fl (v - d) = v - d \<and> js_round d = Num d \<longrightarrow> adjustedTime s' (Num v) = Num d)"
proof -
  let ?s1 = "markVideoClick s v"
  let ?s2 = "dataSliderInput ?s1 val"
  let ?s3 = "markDataClick ?s2"
  have ts1: "csvTimesSeconds ?s1 = csvTimesSeconds s" by (simp add: markVideoClick_marks)
  from dataSliderInput_marks[OF assms(3), of ?s1] assms(2) obtain i
    where i: "i < length (csvTimesSeconds s)"
      "dataMarkedTime ?s2 = Some (csvTimesSeconds s ! i)"
      "\<forall>j < i. csvTimesSeconds s ! j < t"
      "t \<le> csvTimesSeconds s ! i \<or> i = length (csvTimesSeconds s) - 1"
    unfolding ts1 by blast
  let ?d = "csvTimesSeconds s ! i"
  have v2: "videoMarkedTime ?s2 = Some v"
    by (simp add: dataSliderInput_keeps markVideoClick_marks)
  have loaded: "csvData ?s2 \<noteq> None" "csvTimesSeconds ?s2 \<noteq> []"
    using assms(1,2) by (simp_all add: dataSliderInput_keeps markVideoClick_marks)
  have s3: "?s3 = checkSyncReady ?s2"
    using i(2) by (simp add: markDataClick_loaded[OF loaded])
  have v3: "videoMarkedTime ?s3 = Some v" and d3: "dataMarkedTime ?s3 = Some ?d"
    using v2 i(2) unfolding s3 by (simp_all add: checkSyncReady_def)
  have b3: "\<not> setSyncBtn_disabled ?s3"
    using v2 i(2) unfolding s3 by (simp add: checkSyncReady_def)
  from setSyncClick_both[OF v3 d3] obtain s' where s': "setSyncClick ?s3 = Inr s'"
    "syncOffset s' = fl (v - ?d)" "videoMarkedTime s' = None" "dataMarkedTime s' = None"
    by blast
  have adj: "adjustedTime s' (Num v) = js_round (v - fl (v - ?d))"
    by (simp add: adjustedTime_after s'(2))
  have exact: "fl (v - ?d) = v - ?d \<and> js_round ?d = Num ?d \<longrightarrow> adjustedTime s' (Num v) = Num ?d"
    by (simp add: adj)
  from i v2 v3 d3 b3 s' adj exact markVideoClick_marks(1)[of s v] show ?thesis by blast
qed

lemma parse_zero: "parseFloat ''0'' = Num 0"
  by (simp add: parseFloat_eval)

theorem apply_sync_offset_witness:
  "csvData (csvOnload initialApp csvDemoText) \<noteq> None
   \<and> csvTimesSeconds (csvOnload initialApp csvDemoText) = [0, fl (1 / 104)]
   \<and> parseFloat ''0'' = Num 0
   \<and> videoMarkedTime syncDemo = Some 5.25 \<and> dataMarkedTime syncDemo = Some 0
   \<and> \<not> setSyncBtn_disabled syncDemo
   \<and> fl (5.25 - 0) = 5.25 - 0 \<and> js_round 0 = Num 0
   \<and> (\<exists>s'. setSyncClick syncDemo = Inr s' \<and> syncOffset s' = 5.25
         \<and> adjustedTime s' (Num 5.25) = Num 0
         \<and> videoMarkedTime s' = None \<and> dataMarkedTime s' = None)"
proof -
  let ?s = "csvOnload initialApp csvDemoText"
  have ld: "csvData ?s \<noteq> None" "csvTimesSeconds ?s \<noteq> []"
    using csvDemo_loaded by simp_all
  from apply_sync_offset[OF ld parse_zero, of "5.25"] obtain i d s'
    where i: "i < length (csvTimesSeconds ?s)" "d = csvTimesSeconds ?s ! i"
      "\<forall>j < i. csvTimesSeconds ?s ! j < 0"
    and m: "videoMarkedTime syncDemo = Some 5.25" "dataMarkedTime syncDemo = Some d"
      "\<not> setSyncBtn_disabled syncDemo"
    and a: "setSyncClick syncDemo = Inr s'" "syncOffset s' = fl (5.25 - d)"
      "videoMarkedTime s' = None" "dataMarkedTime s' = None"
      "fl (5.25 - d) = 5.25 - d \<and> js_round d = Num d \<longrightarrow> adjustedTime s' (Num 5.25) = Num d"
    unfolding syncDemo_def by blast
  have "i = 0"
  proof (rule ccontr)
    assume "i \<noteq> 0"
    then have "csvTimesSeconds ?s ! 0 < 0" using i(3) by simp
    then show False by (simp add: csvDemo_times)
  qed
  then have d: "d = 0" using i(2) by (simp add: csvDemo_times)
  have ex: "fl (5.25 - 0) = 5.25 - (0::real)" using fl_halves(3) by simp
  have r0: "js_round 0 = Num 0" by (simp add: js_round_small fl_0)
  have "adjustedTime s' (Num 5.25) = Num 0" using a(5) ex r0 unfolding d by simp
  moreover have "syncOffset s' = 5.25" using a(2) ex unfolding d by simp
  ultimately show ?thesis
    using ld(1) csvDemo_times parse_zero m a(1,3,4) ex r0 unfolding d by blast
qed

lemma parse_slider: "parseFloat ''0.005'' = Num (5764607523034235 / 1152921504606846976)"
proof -
  have "parseFloat ''0.005'' = js_round (1 / 200)"
    by (simp add: parseFloat_def trimStart_def isWhiteSpace_def parseUnsigned_def startsWith_def
        isDigit_def digitsValue_def parseExponent_def scale10_def)
  also have "\<dots> = Num (fl (1 / 200))" by (rule js_round_small) simp
  finally show ?thesis by (simp only: fl_1_200)
qed

lemma roundingDemo_marks:
  "videoMarkedTime roundingDemo = Some (fl 5.2) \<and> dataMarkedTime roundingDemo = Some (fl (1 / 104))"
proof -
  let ?s1 = "markVideoClick (csvOnload initialApp csvDemoText) (fl 5.2)"
  have ts: "csvTimesSeconds ?s1 = [0, fl (1 / 104)]"
    by (simp add: markVideoClick_marks csvDemo_times)
  from dataSliderInput_marks[OF parse_slider, of ?s1] obtain i where i: "i < length [0, fl (1 / 104)]"
    "dataMarkedTime (dataSliderInput ?s1 ''0.005'') = Some ([0, fl (1 / 104)] ! i)"
    "5764607523034235 / 1152921504606846976 \<le> [0, fl (1 / 104)] ! i \<or> i = length [0, fl (1 / 104)] - 1"
    unfolding ts by auto
  have "i \<noteq> 0"
  proof
    assume "i = 0"
    with i(3) show False by simp
  qed
  with i(1) have "i = 1" by simp
  with i(2) have d2: "dataMarkedTime (dataSliderInput ?s1 ''0.005'') = Some (fl (1 / 104))" by simp
  have v2: "videoMarkedTime (dataSliderInput ?s1 ''0.005'') = Some (fl 5.2)"
    by (simp add: dataSliderInput_keeps markVideoClick_marks)
  have loaded: "csvData (dataSliderInput ?s1 ''0.005'') \<noteq> None"
    "csvTimesSeconds (dataSliderInput ?s1 ''0.005'') \<noteq> []"
    using csvDemo_loaded by (simp_all add: dataSliderInput_keeps markVideoClick_marks)
  have "markDataClick (dataSliderInput ?s1 ''0.005'')
          = checkSyncReady (if dataMarkedTime (dataSliderInput ?s1 ''0.005'') = None
                            then (dataSliderInput ?s1 ''0.005'')\<lparr>dataMarkedTime := Some 0\<rparr>
                            else dataSliderInput ?s1 ''0.005'')"
    by (rule markDataClick_loaded[OF loaded])
  then have s3: "markDataClick (dataSliderInput ?s1 ''0.005'')
                   = checkSyncReady (dataSliderInput ?s1 ''0.005'')"
    unfolding d2 by simp
  show ?thesis
    unfolding roundingDemo_def s3 using d2 v2 by (simp add: checkSyncReady_def)
qed

lemma fl_offset:
  "fl (5854679515581645 / 1125899906842624 - 1385722962267845 / 144115188075855872)
     = 5843853554938927 / 1125899906842624"
  by (subst fl_normal[of 2]) (simp_all add: pow2_def roundHalfEven_def)

lemma fl_back:
  "fl (5854679515581645 / 1125899906842624 - 5843853554938927 / 1125899906842624)
     = 5412980321359 / 562949953421312"
  by (subst fl_normal[of "- 7"]) (simp_all add: pow2_def roundHalfEven_def)

theorem apply_sync_rounding_counterexample:
  "fl 5.2 = 5854679515581645 / 1125899906842624
   \<and> fl (1 / 104) = 1385722962267845 / 144115188075855872
   \<and> videoMarkedTime roundingDemo = Some (fl 5.2)
   \<and> dataMarkedTime roundingDemo = Some (fl (1 / 104))
   \<and> (\<exists>s'. setSyncClick roundingDemo = Inr s'
         \<and> syncOffset s' = 5843853554938927 / 1125899906842624
         \<and> syncOffset s' \<noteq> fl 5.2 - fl (1 / 104)
         \<and> adjustedTime s' (Num (fl 5.2)) = Num (5412980321359 / 562949953421312)
         \<and> adjustedTime s' (Num (fl 5.2)) \<noteq> Num (fl (1 / 104)))"
proof -
  note m = roundingDemo_marks
  from setSyncClick_both[OF m[THEN conjunct1] m[THEN conjunct2]] obtain s'
    where s': "setSyncClick roundingDemo = Inr s'" "syncOffset s' = fl (fl 5.2 - fl (1 / 104))"
    by blast
  have off: "syncOffset s' = 5843853554938927 / 1125899906842624"
    unfolding s'(2) by (simp only: fl_5_2 fl_1_104 fl_offset)
  have ne: "syncOffset s' \<noteq> fl 5.2 - fl (1 / 104)"
    unfolding off fl_5_2 fl_1_104 by simp
  have "adjustedTime s' (Num (fl 5.2))
          = js_round (5854679515581645 / 1125899906842624 - 5843853554938927 / 1125899906842624)"
    by (simp only: adjustedTime_after off fl_5_2)
  also have "\<dots> = Num (fl (5854679515581645 / 1125899906842624 - 5843853554938927 / 1125899906842624))"
    by (rule js_round_small) simp
  finally have adj: "adjustedTime s' (Num (fl 5.2)) = Num (5412980321359 / 562949953421312)"
    by (simp only: fl_back)
  have ne2: "adjustedTime s' (Num (fl 5.2)) \<noteq> Num (fl (1 / 104))"
    unfolding adj fl_1_104 by simp
  from fl_5_2 fl_1_104 m s'(1) off ne adj ne2 show ?thesis by blast
qed

subsection \<open>Windowed view\<close>

lemma pow2_1000: "pow2 1000 = 2 ^ 1000"
  by (simp add: pow2_def)

lemma js_round_sum:
  assumes "\<bar>a\<bar> \<le> pow2 k" and "\<bar>b\<bar> \<le> pow2 k" and "- 1022 \<le> k" and "k < 1022"
  shows "js_round (a + b) = Num (fl (a + b))" and "\<bar>fl (a + b)\<bar> \<le> pow2 (k + 1)"
    and "js_round (a - b) = Num (fl (a - b))" and "\<bar>fl (a - b)\<bar> \<le> pow2 (k + 1)"
proof -
  have s: "\<bar>a + b\<bar> \<le> pow2 (k + 1)" and d: "\<bar>a - b\<bar> \<le> pow2 (k + 1)"
    using assms(1,2) by (simp_all add: pow2_Suc)
  have k1: "k + 1 < 1023" "- 1022 \<le> k + 1" "k + 1 \<le> 1023" using assms(3,4) by linarith+
  show "js_round (a + b) = Num (fl (a + b))" by (rule js_round_pow2[OF s k1(1)])
  show "js_round (a - b) = Num (fl (a - b))" by (rule js_round_pow2[OF d k1(1)])
  show "\<bar>fl (a + b)\<bar> \<le> pow2 (k + 1)" by (rule fl_abs_le[OF k1(2,3) s])
  show "\<bar>fl (a - b)\<bar> \<le> pow2 (k + 1)" by (rule fl_abs_le[OF k1(2,3) d])
qed

lemma half_window: "js_div (Num 5) (Num 2) = Num (5 / 2)"
  by (simp add: js_round_small fl_halves)

lemma overflowBound_100: "100 \<le> overflowBound"
proof -
  have "pow2 7 \<le> pow2 1023" by (rule pow2_mono) simp
  moreover have "pow2 7 = 128" by (simp add: pow2_def)
  ultimately show ?thesis using overflowBound_ge by linarith
qed

lemma fl_ge_100: "100 \<le> x \<Longrightarrow> 100 \<le> fl x"
  using fl_mono[of 100 x] by (simp add: fl_small_ints)

lemma fl_le_m100: "x \<le> - 100 \<Longrightarrow> fl x \<le> - 100"
  using fl_mono[of x "- 100"] by (simp add: fl_small_ints fl_neg)

text \<open>
  The clamp of the marker position, for a quotient whose exact value is \<open>q\<close>: an overflow on
  the way ends at the same bound as the rounded numbers do.
\<close>

lemma clamp_round:
  "Math_min (Math_max (js_times (js_round q) 100) (Num 0)) (Num 100)
     = Num (min (max (fl (fl q * 100)) 0) 100)"
proof -
  note ob = overflowBound_100
  have second: "Math_min (Math_max (js_round y) (Num 0)) (Num 100) = Num (min (max (fl y) 0) 100)"
    for y
  proof -
    consider "overflowBound \<le> y" | "y \<le> - overflowBound" | "\<not> overflowBound \<le> y" "\<not> y \<le> - overflowBound"
      by blast
    then show ?thesis
    proof cases
      case 1
      then have "100 \<le> fl y" using ob by (intro fl_ge_100) linarith
      with 1 show ?thesis by (simp add: js_round_def)
    next
      case 2
      then have "fl y \<le> - 100" using ob by (intro fl_le_m100) linarith
      with 2 ob show ?thesis by (simp add: js_round_def)
    next
      case 3
      then show ?thesis by (simp add: js_round_def)
    qed
  qed
  consider "overflowBound \<le> q" | "q \<le> - overflowBound" | "\<not> overflowBound \<le> q" "\<not> q \<le> - overflowBound"
    by blast
  then show ?thesis
  proof cases
    case 1
    then have "100 \<le> fl q" using ob by (intro fl_ge_100) linarith
    then have "100 \<le> fl (fl q * 100)" by (intro fl_ge_100) linarith
    with 1 show ?thesis by (simp add: js_round_def js_times_def)
  next
    case 2
    then have "fl q \<le> - 100" using ob by (intro fl_le_m100) linarith
    then have "fl (fl q * 100) \<le> - 100" by (intro fl_le_m100) linarith
    with 2 ob show ?thesis by (simp add: js_round_def js_times_def)
  next
    case 3
    then have "js_times (js_round q) 100 = js_round (fl q * 100)"
      by (simp add: js_round_def js_times_def)
    then show ?thesis by (simp only: second)
  qed
qed

lemma view_update:
  assumes "csvData s \<noteq> None" and "csvTimesSeconds s \<noteq> []" and "hasCharts s"
    and "\<bar>vt\<bar> \<le> 2 ^ 1000" and "\<bar>syncOffset s\<bar> \<le> 2 ^ 1000"
    and a: "a = fl (vt - syncOffset s)" and st: "st = max 0 (fl (a - 5 / 2))"
    and en: "en = fl (a + 5 / 2)" and num: "num = fl (a - st)" and den: "den = fl (en - st)"
  shows "adjustedTime s (Num vt) = Num a"
    and "updateChartsForVideoTime s (Num vt) =
      s\<lparr>imuCharts := (\<lambda>chartId. case imuCharts s chartId of None \<Rightarrow> None
            | Some chart \<Rightarrow> Some (chart\<lparr> datasets := map (dataPoints s) (sensors chartId),
                                        x_min := Num st, x_max := Num en \<rparr>)),
        marker_left := Some
          (if den = 0 then (if num < 0 then Num 0 else if num = 0 then NaN else Num 100)
           else Num (min (max (fl (fl (num / den) * 100)) 0) 100))\<rparr>"
proof -
  have b0: "\<bar>vt\<bar> \<le> pow2 1000" "\<bar>syncOffset s\<bar> \<le> pow2 1000"
    using assms(4,5) by (simp_all only: pow2_1000)
  note r0 = js_round_sum[OF b0, simplified]
  have adj: "adjustedTime s (Num vt) = Num a"
    using r0(3) by (simp add: adjustedTime_after a)
  have ba: "\<bar>a\<bar> \<le> pow2 1001" using r0(4) by (simp add: a)
  have "pow2 2 \<le> pow2 1001" by (rule pow2_mono) simp
  moreover have "pow2 2 = 4" by (simp add: pow2_def)
  ultimately have bh: "\<bar>5 / 2 :: real\<bar> \<le> pow2 1001" by simp
  note r1 = js_round_sum[OF ba bh, simplified]
  have start: "Math_max (Num 0) (js_sub (Num a) (Num (5 / 2))) = Num st"
    using r1(3) by (simp add: js_sub_def st)
  have fin: "js_add (Num a) (Num (5 / 2)) = Num en"
    using r1(1) by (simp add: en)
  have "\<bar>fl (a - 5 / 2)\<bar> \<le> pow2 1002" using r1(4) by simp
  then have bst: "\<bar>st\<bar> \<le> pow2 1002" using pow2_pos[of 1002] by (auto simp: st max_def)
  have ben: "\<bar>en\<bar> \<le> pow2 1002" using r1(2) by (simp add: en)
  have "pow2 1001 \<le> pow2 1002" by (rule pow2_mono) simp
  with ba have ba2: "\<bar>a\<bar> \<le> pow2 1002" by linarith
  note r2 = js_round_sum[OF ba2 bst, simplified] and r3 = js_round_sum[OF ben bst, simplified]
  have n: "js_sub (Num a) (Num st) = Num num" using r2(3) by (simp add: js_sub_def num)
  have d: "js_sub (Num en) (Num st) = Num den" using r3(3) by (simp add: js_sub_def den)
  have marker: "Math_min (Math_max (js_times (js_div (Num num) (Num den)) 100) (Num 0)) (Num 100)
      = (if den = 0 then (if num < 0 then Num 0 else if num = 0 then NaN else Num 100)
         else Num (min (max (fl (fl (num / den) * 100)) 0) 100))"
  proof (cases "den = 0")
    case True
    then show ?thesis by (simp add: js_times_def)
  next
    case False
    then have "js_div (Num num) (Num den) = js_round (num / den)" by simp
    with False show ?thesis by (simp only: clamp_round if_False)
  qed
  show "adjustedTime s (Num vt) = Num a" by (rule adj)
  show "updateChartsForVideoTime s (Num vt) =
      s\<lparr>imuCharts := (\<lambda>chartId. case imuCharts s chartId of None \<Rightarrow> None
            | Some chart \<Rightarrow> Some (chart\<lparr> datasets := map (dataPoints s) (sensors chartId),
                                        x_min := Num st, x_max := Num en \<rparr>)),
        marker_left := Some
          (if den = 0 then (if num < 0 then Num 0 else if num = 0 then NaN else Num 100)
           else Num (min (max (fl (fl (num / den) * 100)) 0) 100))\<rparr>"
    unfolding updateChartsForVideoTime_def Let_def half_window adj start fin n d marker
    using assms(1-3) by auto
qed

text \<open>
  C2. With sensor data loaded and the charts created, for a video time and an offset of
  magnitude at most \<open>2\<^sup>1\<^sup>0\<^sup>0\<^sup>0\<close> (so that no step overflows), every step of the view update being
  rounded to the nearest double: the adjusted time is \<open>a = videoTime - syncOffset\<close>; every
  chart gets the x-range from \<open>st = max 0 (a - 5/2)\<close> to \<open>en = a + 5/2\<close> (no upper clamp); the
  marker is placed at the percentage \<open>(a - st) / (en - st) * 100\<close> clamped to 0 and 100.
  Where the rounded width \<open>en - st\<close> is zero, the marker is at 0 if \<open>a - st\<close> is negative and
  is not a number if \<open>a - st\<close> is zero.
\<close>

theorem windowed_view:
  assumes "csvData s \<noteq> None" and "csvTimesSeconds s \<noteq> []" and "hasCharts s"
    and "\<bar>videoTime\<bar> \<le> 2 ^ 1000" and "\<bar>syncOffset s\<bar> \<le> 2 ^ 1000"
  shows "let a = fl (videoTime - syncOffset s);
             st = max 0 (fl (a - 5 / 2));
             en = fl (a + 5 / 2);
             num = fl (a - st);
             den = fl (en - st)
         in adjustedTime s (Num videoTime) = Num a
          \<and> (\<forall>c. (imuCharts (updateChartsForVideoTime s (Num videoTime)) c = None)
                   = (imuCharts s c = None))
          \<and> (\<forall>c chart. imuCharts (updateChartsForVideoTime s (Num videoTime)) c = Some chart \<longrightarrow>
                 x_min chart = Num st \<and> x_max chart = Num en)
          \<and> marker_left (updateChartsForVideoTime s (Num videoTime)) =
               Some (if den = 0
                     then (if num < 0 then Num 0 else if num = 0 then NaN else Num 100)
                     else Num (min (max (fl (fl (num / den) * 100)) 0) 100))"
proof -
  define a where "a = fl (videoTime - syncOffset s)"
  define st where "st = max 0 (fl (a - 5 / 2))"
  define en where "en = fl (a + 5 / 2)"
  define num where "num = fl (a - st)"
  define den where "den = fl (en - st)"
  note u = view_update[OF assms a_def st_def en_def num_def den_def]
  have same: "\<forall>c. (imuCharts (updateChartsForVideoTime s (Num videoTime)) c = None)
                   = (imuCharts s c = None)"
    unfolding u(2) by (auto split: option.splits)
  have charts: "\<forall>c chart. imuCharts (updateChartsForVideoTime s (Num videoTime)) c = Some chart \<longrightarrow>
            x_min chart = Num st \<and> x_max chart = Num en"
    unfolding u(2) by (auto split: option.splits)
  have marker: "marker_left (updateChartsForVideoTime s (Num videoTime)) =
               Some (if den = 0
                     then (if num < 0 then Num 0 else if num = 0 then NaN else Num 100)
                     else Num (min (max (fl (fl (num / den) * 100)) 0) 100))"
    unfolding u(2) by simp
  show ?thesis
    unfolding Let_def a_def[symmetric] st_def[symmetric] en_def[symmetric] num_def[symmetric]
      den_def[symmetric]
    using u(1) same charts marker by simp
qed

text \<open>The example: video time 10 and the offset nearest to 4.2.\<close>

lemma fl_4_2: "fl 4.2 = 4728779608739021 / 1125899906842624"
  by (subst fl_normal[of 2]) (simp_all add: pow2_def roundHalfEven_def)

lemma fl_5_8: "fl 5.8 = 6530219459687219 / 1125899906842624"
  by (subst fl_normal[of 2]) (simp_all add: pow2_def roundHalfEven_def)

lemma fl_3_3: "fl 3.3 = 3715469692580659 / 1125899906842624"
  by (subst fl_normal[of 1]) (simp_all add: pow2_def roundHalfEven_def)

lemma fl_8_3: "fl 8.3 = 2336242306698445 / 281474976710656"
  by (subst fl_normal[of 3]) (simp_all add: pow2_def roundHalfEven_def)

lemma view_adjusted:
  "fl (10 - 4728779608739021 / 1125899906842624) = 6530219459687219 / 1125899906842624"
  by (subst fl_normal[of 2]) (simp_all add: pow2_def roundHalfEven_def)

lemma view_start:
  "fl (6530219459687219 / 1125899906842624 - 5 / 2) = 3715469692580659 / 1125899906842624"
  by (subst fl_normal[of 1]) (simp_all add: pow2_def roundHalfEven_def)

lemma view_end:
  "fl (6530219459687219 / 1125899906842624 + 5 / 2) = 2336242306698445 / 281474976710656"
  by (subst fl_normal[of 3]) (simp_all add: pow2_def roundHalfEven_def)

lemma view_numerator:
  "fl (6530219459687219 / 1125899906842624 - 3715469692580659 / 1125899906842624) = 5 / 2"
  by (subst fl_normal[of 1]) (simp_all add: pow2_def roundHalfEven_def)

lemma view_denominator:
  "fl (2336242306698445 / 281474976710656 - 3715469692580659 / 1125899906842624)
     = 5629499534213121 / 1125899906842624"
  by (subst fl_normal[of 2]) (simp_all add: pow2_def roundHalfEven_def)

lemma view_quotient:
  "fl (5 / 2 / (5629499534213121 / 1125899906842624)) = 4503599627370495 / 9007199254740992"
  by (subst fl_normal[of "- 2"]) (simp_all add: pow2_def roundHalfEven_def)

lemma view_percent:
  "fl (4503599627370495 / 9007199254740992 * 100) = 3518437208883199 / 70368744177664"
  by (subst fl_normal[of 5]) (simp_all add: pow2_def roundHalfEven_def)

lemma viewDemo_state:
  "csvData viewDemo \<noteq> None" "csvTimesSeconds viewDemo \<noteq> []" "hasCharts viewDemo"
  "syncOffset viewDemo = 4728779608739021 / 1125899906842624"
  "imuCharts viewDemo ChartAcc \<noteq> None"
proof -
  show "csvData viewDemo \<noteq> None" by (simp add: viewDemo_def csvDemo_rows)
  show "csvTimesSeconds viewDemo \<noteq> []" by (simp add: viewDemo_def csvDemo_times)
  show "hasCharts viewDemo" using csvDemo_charts by (simp add: viewDemo_def hasCharts_def)
  show "syncOffset viewDemo = 4728779608739021 / 1125899906842624"
    unfolding viewDemo_def fl_4_2 by simp
  show "imuCharts viewDemo ChartAcc \<noteq> None"
    by (simp add: viewDemo_def csvOnload_def nonBlank_demo Let_def updateImuChartsFull_def
        initImuCharts_def initialApp_def timeAxis_def)
qed

lemma viewDemo_values:
  "fl (10 - syncOffset viewDemo) = 6530219459687219 / 1125899906842624"
  "max 0 (fl (6530219459687219 / 1125899906842624 - 5 / 2)) = 3715469692580659 / 1125899906842624"
  "min (max (fl (fl (5 / 2 / (5629499534213121 / 1125899906842624)) * 100)) 0) 100
     = 3518437208883199 / 70368744177664"
proof -
  show "fl (10 - syncOffset viewDemo) = 6530219459687219 / 1125899906842624"
    unfolding viewDemo_state(4) by (rule view_adjusted)
  show "max 0 (fl (6530219459687219 / 1125899906842624 - 5 / 2)) = 3715469692580659 / 1125899906842624"
    unfolding view_start by simp
  show "min (max (fl (fl (5 / 2 / (5629499534213121 / 1125899906842624)) * 100)) 0) 100
     = 3518437208883199 / 70368744177664"
    unfolding view_quotient view_percent by simp
qed

theorem windowed_view_witness:
  "csvData viewDemo \<noteq> None \<and> csvTimesSeconds viewDemo \<noteq> [] \<and> hasCharts viewDemo
   \<and> \<bar>10 :: real\<bar> \<le> 2 ^ 1000 \<and> syncOffset viewDemo = fl 4.2 \<and> \<bar>fl 4.2\<bar> \<le> 2 ^ 1000
   \<and> adjustedTime viewDemo (Num 10) = Num (fl 5.8)
   \<and> (\<exists>chart. imuCharts (updateChartsForVideoTime viewDemo (Num 10)) ChartAcc = Some chart
         \<and> x_min chart = Num (fl 3.3) \<and> x_max chart = Num (fl 8.3))
   \<and> fl (fl 8.3 - fl 3.3) \<noteq> 0
   \<and> marker_left (updateChartsForVideoTime viewDemo (Num 10))
        = Some (Num (3518437208883199 / 70368744177664))"
proof -
  have b1: "\<bar>10 :: real\<bar> \<le> 2 ^ 1000" by simp
  have b2: "\<bar>syncOffset viewDemo\<bar> \<le> 2 ^ 1000" unfolding viewDemo_state(4) by simp
  have b3: "\<bar>fl 4.2\<bar> \<le> 2 ^ 1000" unfolding fl_4_2 by simp
  have so: "syncOffset viewDemo = fl 4.2" by (simp add: viewDemo_def)
  note w = windowed_view[OF viewDemo_state(1-3) b1 b2, unfolded Let_def viewDemo_values(1)
      viewDemo_values(2) view_end view_numerator view_denominator]
  have a: "adjustedTime viewDemo (Num 10) = Num (fl 5.8)"
    using w[THEN conjunct1] unfolding fl_5_8 .
  note same = w[THEN conjunct2, THEN conjunct1]
  note charts = w[THEN conjunct2, THEN conjunct2, THEN conjunct1]
  note marker = w[THEN conjunct2, THEN conjunct2, THEN conjunct2]
  from same viewDemo_state(5)
  have "imuCharts (updateChartsForVideoTime viewDemo (Num 10)) ChartAcc \<noteq> None" by simp
  then obtain chart
    where c: "imuCharts (updateChartsForVideoTime viewDemo (Num 10)) ChartAcc = Some chart"
    by blast
  have x: "x_min chart = Num (fl 3.3) \<and> x_max chart = Num (fl 8.3)"
    using charts[rule_format, OF c] unfolding fl_3_3 fl_8_3 .
  have nz: "fl (fl 8.3 - fl 3.3) \<noteq> 0"
    unfolding fl_3_3 fl_8_3 view_denominator by simp
  have nz': "(5629499534213121 / 1125899906842624 :: real) \<noteq> 0" by simp
  have m: "marker_left (updateChartsForVideoTime viewDemo (Num 10))
        = Some (Num (3518437208883199 / 70368744177664))"
    using marker nz' unfolding viewDemo_values(3) by simp
  from viewDemo_state(1-3) b1 so b3 a c x nz m show ?thesis by blast
qed

text \<open>
  A window that rounding collapses: with the offset \<open>- 2\<^sup>6\<^sup>0\<close> the half window is absorbed
  on both sides, the width and the numerator are zero and the marker is not a number.
\<close>

lemma far_values:
  "fl (0 - (- 1152921504606846976)) = 1152921504606846976"
  "fl (1152921504606846976 - 5 / 2) = 1152921504606846976"
  "fl (1152921504606846976 + 5 / 2) = 1152921504606846976"
proof -
  show "fl (0 - (- 1152921504606846976)) = 1152921504606846976"
    by (subst fl_normal[of 60]) (simp_all add: pow2_def roundHalfEven_def)
  show "fl (1152921504606846976 - 5 / 2) = 1152921504606846976"
    by (subst fl_normal[of 59]) (simp_all add: pow2_def roundHalfEven_def)
  show "fl (1152921504606846976 + 5 / 2) = 1152921504606846976"
    by (subst fl_normal[of 60]) (simp_all add: pow2_def roundHalfEven_def)
qed

lemma farDemo_state:
  "csvData farDemo \<noteq> None" "csvTimesSeconds farDemo \<noteq> []" "hasCharts farDemo"
  "syncOffset farDemo = - 1152921504606846976"
proof -
  show "csvData farDemo \<noteq> None" by (simp add: farDemo_def csvDemo_rows)
  show "csvTimesSeconds farDemo \<noteq> []" by (simp add: farDemo_def csvDemo_times)
  show "hasCharts farDemo" using csvDemo_charts by (simp add: farDemo_def hasCharts_def)
  show "syncOffset farDemo = - 1152921504606846976" by (simp add: farDemo_def)
qed

lemma farDemo_marker: "marker_left (updateChartsForVideoTime farDemo (Num 0)) = Some NaN"
proof -
  have b1: "\<bar>0 :: real\<bar> \<le> 2 ^ 1000" by simp
  have b2: "\<bar>syncOffset farDemo\<bar> \<le> 2 ^ 1000" unfolding farDemo_state(4) by simp
  have m: "max 0 (1152921504606846976 :: real) = 1152921504606846976" by simp
  have z: "(1152921504606846976 :: real) - 1152921504606846976 = 0" by simp
  note u = view_update[OF farDemo_state(1-3) b1 b2 refl refl refl refl refl,
      unfolded farDemo_state(4) far_values m z fl_0]
  show ?thesis unfolding u(2) by simp
qed

theorem windowed_view_example_counterexample:
  "syncOffset viewDemo = fl 4.2
   \<and> adjustedTime viewDemo (Num 10) = Num (fl 5.8)
   \<and> Math_max (Num 0) (js_sub (Num (fl 5.8)) (js_div (Num 5) (Num 2))) = Num (fl 3.3)
   \<and> js_add (Num (fl 5.8)) (js_div (Num 5) (Num 2)) = Num (fl 8.3)
   \<and> js_div (js_sub (Num (fl 5.8)) (Num (fl 3.3))) (js_sub (Num (fl 8.3)) (Num (fl 3.3)))
        = Num (4503599627370495 / 9007199254740992)
   \<and> (4503599627370495 / 9007199254740992 :: real) \<noteq> 0.5
   \<and> marker_left (updateChartsForVideoTime viewDemo (Num 10))
        = Some (Num (3518437208883199 / 70368744177664))
   \<and> (3518437208883199 / 70368744177664 :: real) \<noteq> 100 * 0.5
   \<and> syncOffset farDemo = - (2 ^ 60)
   \<and> marker_left (updateChartsForVideoTime farDemo (Num 0)) = Some NaN"
proof -
  have b1: "\<bar>10 :: real\<bar> \<le> 2 ^ 1000" by simp
  have b2: "\<bar>syncOffset viewDemo\<bar> \<le> 2 ^ 1000" unfolding viewDemo_state(4) by simp
  have so: "syncOffset viewDemo = fl 4.2" by (simp add: viewDemo_def)
  note u = view_update[OF viewDemo_state(1-3) b1 b2 refl refl refl refl refl,
      unfolded viewDemo_values(1) viewDemo_values(2) view_end view_numerator view_denominator]
  have a: "adjustedTime viewDemo (Num 10) = Num (fl 5.8)"
    using u(1) unfolding fl_5_8 .
  have st: "Math_max (Num 0) (js_sub (Num (fl 5.8)) (js_div (Num 5) (Num 2))) = Num (fl 3.3)"
  proof -
    have "js_round (6530219459687219 / 1125899906842624 - 5 / 2)
            = Num (fl (6530219459687219 / 1125899906842624 - 5 / 2))"
      by (rule js_round_small) simp
    then show ?thesis
      unfolding half_window fl_5_8 fl_3_3 js_sub_def view_start by simp
  qed
  have en: "js_add (Num (fl 5.8)) (js_div (Num 5) (Num 2)) = Num (fl 8.3)"
  proof -
    have "js_round (6530219459687219 / 1125899906842624 + 5 / 2)
            = Num (fl (6530219459687219 / 1125899906842624 + 5 / 2))"
      by (rule js_round_small) simp
    then show ?thesis
      unfolding half_window fl_5_8 fl_8_3 view_end by simp
  qed
  have n: "js_sub (Num (fl 5.8)) (Num (fl 3.3)) = Num (5 / 2)"
  proof -
    have "js_round (6530219459687219 / 1125899906842624 - 3715469692580659 / 1125899906842624)
            = Num (fl (6530219459687219 / 1125899906842624 - 3715469692580659 / 1125899906842624))"
      by (rule js_round_small) simp
    then show ?thesis
      unfolding fl_5_8 fl_3_3 js_sub_def view_numerator by simp
  qed
  have d: "js_sub (Num (fl 8.3)) (Num (fl 3.3)) = Num (5629499534213121 / 1125899906842624)"
  proof -
    have "js_round (2336242306698445 / 281474976710656 - 3715469692580659 / 1125899906842624)
            = Num (fl (2336242306698445 / 281474976710656 - 3715469692580659 / 1125899906842624))"
      by (rule js_round_small) simp
    then show ?thesis
      unfolding fl_8_3 fl_3_3 js_sub_def view_denominator by simp
  qed
  have q: "js_div (js_sub (Num (fl 5.8)) (Num (fl 3.3))) (js_sub (Num (fl 8.3)) (Num (fl 3.3)))
        = Num (4503599627370495 / 9007199254740992)"
  proof -
    have "js_round (5 / 2 / (5629499534213121 / 1125899906842624))
            = Num (fl (5 / 2 / (5629499534213121 / 1125899906842624)))"
      by (rule js_round_small) simp
    then have "js_div (Num (5 / 2)) (Num (5629499534213121 / 1125899906842624))
            = Num (4503599627370495 / 9007199254740992)"
      unfolding view_quotient by simp
    then show ?thesis unfolding n d .
  qed
  have nz': "(5629499534213121 / 1125899906842624 :: real) \<noteq> 0" by simp
  have m: "marker_left (updateChartsForVideoTime viewDemo (Num 10))
        = Some (Num (3518437208883199 / 70368744177664))"
    unfolding u(2) using nz' unfolding viewDemo_values(3) by simp
  have ne1: "(4503599627370495 / 9007199254740992 :: real) \<noteq> 0.5" by simp
  have ne2: "(3518437208883199 / 70368744177664 :: real) \<noteq> 100 * 0.5" by simp
  have far: "syncOffset farDemo = - (2 ^ 60)" by (simp add: farDemo_def)
  from so a st en q ne1 m ne2 far farDemo_marker show ?thesis by blast
qed

subsection \<open>Stream synchronizer: readiness and the default data mark\<close>

text \<open>
  C5. The readiness check enables the apply button exactly when both marks are present: it
  is disabled with no mark, after marking only the video, and after marking only the data,
  and enabled once both are marked, in either order. Applying while a mark is absent does
  not fail: the handler returns normally and leaves the state as it is.
\<close>

theorem canApply_both_marks:
  assumes "videoMarkedTime s = None" and "dataMarkedTime s = None"
    and "csvData s \<noteq> None" and "csvTimesSeconds s \<noteq> []"
  shows "setSyncBtn_disabled (checkSyncReady r) = (videoMarkedTime r = None \<or> dataMarkedTime r = None)
     \<and> ((videoMarkedTime r = None \<or> dataMarkedTime r = None) \<longrightarrow> setSyncClick r = Inr r)
     \<and> setSyncBtn_disabled (checkSyncReady s)
     \<and> setSyncBtn_disabled (markVideoClick s v)
     \<and> setSyncBtn_disabled (markDataClick s)
     \<and> \<not> setSyncBtn_disabled (markDataClick (markVideoClick s v))
     \<and> \<not> setSyncBtn_disabled (markVideoClick (markDataClick s) v)"
proof -
  have loaded: "csvData (markVideoClick s v) \<noteq> None" "csvTimesSeconds (markVideoClick s v) \<noteq> []"
    using assms by (simp_all add: markVideoClick_def checkSyncReady_def)
  have a: "setSyncBtn_disabled (markVideoClick s v)"
    using assms by (simp add: markVideoClick_def checkSyncReady_def)
  have b: "setSyncBtn_disabled (markDataClick s)"
    using assms by (simp add: markDataClick_loaded checkSyncReady_def)
  have c: "\<not> setSyncBtn_disabled (markDataClick (markVideoClick s v))"
    using assms by (simp add: markDataClick_loaded[OF loaded] markVideoClick_marks checkSyncReady_def)
  have d: "\<not> setSyncBtn_disabled (markVideoClick (markDataClick s) v)"
    using assms by (simp add: markDataClick_loaded markVideoClick_def checkSyncReady_def)
  show ?thesis
    using a b c d assms(1) setSyncClick_missing[of r] by (simp add: checkSyncReady_enabled)
qed

theorem canApply_both_marks_witness:
  "videoMarkedTime (csvOnload initialApp csvDemoText) = None
   \<and> dataMarkedTime (csvOnload initialApp csvDemoText) = None
   \<and> csvData (csvOnload initialApp csvDemoText) \<noteq> None
   \<and> csvTimesSeconds (csvOnload initialApp csvDemoText) \<noteq> []
   \<and> setSyncClick initialApp = Inr initialApp
   \<and> setSyncBtn_disabled (markVideoClick (csvOnload initialApp csvDemoText) 5.25)
   \<and> setSyncBtn_disabled (markDataClick (csvOnload initialApp csvDemoText))
   \<and> \<not> setSyncBtn_disabled (markDataClick (markVideoClick (csvOnload initialApp csvDemoText) 5.25))"
proof -
  have idle: "videoMarkedTime initialApp = None \<or> dataMarkedTime initialApp = None"
    by (simp add: initialApp_def)
  from canApply_both_marks[OF csvDemo_marks[THEN conjunct1] csvDemo_marks[THEN conjunct2]
      csvDemo_loaded[THEN conjunct1] csvDemo_loaded[THEN conjunct2], of initialApp "5.25"]
    idle csvDemo_marks csvDemo_loaded
  show ?thesis by blast
qed

theorem apply_without_marks_counterexample:
  "videoMarkedTime initialApp = None \<and> dataMarkedTime initialApp = None
   \<and> setSyncClick initialApp = Inr initialApp
   \<and> setSyncClick initialApp \<noteq> Inl PreconditionError"
  by (simp add: setSyncClick_def initialApp_def)

text \<open>
  C10. With sensor data loaded and no data mark yet, the mark-data handler sets the data
  mark to 0 and leaves the video mark alone; if the video mark is \<open>v\<close>, applying then returns
  normally with the offset \<open>v - 0\<close> (the subtraction is exact: the video mark, a time of
  the video, is a double).
\<close>

theorem markData_defaults_to_zero:
  assumes "csvData s \<noteq> None" and "csvTimesSeconds s \<noteq> []" and "dataMarkedTime s = None"
  shows "dataMarkedTime (markDataClick s) = Some 0
     \<and> videoMarkedTime (markDataClick s) = videoMarkedTime s
     \<and> (\<forall>v. videoMarkedTime s = Some v \<longrightarrow>
           (\<exists>s'. setSyncClick (markDataClick s) = Inr s' \<and> syncOffset s' = fl (v - 0)
               \<and> (fl v = v \<longrightarrow> syncOffset s' = v - 0)))"
proof -
  have d: "dataMarkedTime (markDataClick s) = Some 0"
    and v: "videoMarkedTime (markDataClick s) = videoMarkedTime s"
    using assms by (simp_all add: markDataClick_loaded checkSyncReady_def)
  have "\<exists>s'. setSyncClick (markDataClick s) = Inr s' \<and> syncOffset s' = fl (v0 - 0)
               \<and> (fl v0 = v0 \<longrightarrow> syncOffset s' = v0 - 0)"
    if "videoMarkedTime s = Some v0" for v0
    using setSyncClick_both[of "markDataClick s" v0 0] that d v by auto
  with d v show ?thesis by blast
qed

lemma markedDemo_state:
  "csvData markedDemo \<noteq> None \<and> csvTimesSeconds markedDemo \<noteq> []
   \<and> dataMarkedTime markedDemo = None \<and> videoMarkedTime markedDemo = Some 5.25"
  using csvDemo_loaded csvDemo_marks
  by (simp add: markedDemo_def markVideoClick_def checkSyncReady_def)

theorem markData_defaults_to_zero_witness:
  "csvData markedDemo \<noteq> None \<and> csvTimesSeconds markedDemo \<noteq> []
   \<and> dataMarkedTime markedDemo = None \<and> videoMarkedTime markedDemo = Some 5.25
   \<and> fl 5.25 = 5.25
   \<and> dataMarkedTime (markDataClick markedDemo) = Some 0
   \<and> (\<exists>s'. setSyncClick (markDataClick markedDemo) = Inr s' \<and> syncOffset s' = 5.25)"
proof -
  note st = markedDemo_state
  note m = markData_defaults_to_zero[OF st[THEN conjunct1] st[THEN conjunct2, THEN conjunct1]
      st[THEN conjunct2, THEN conjunct2, THEN conjunct1]]
  have v: "videoMarkedTime markedDemo = Some 5.25" using st by simp
  have e: "fl 5.25 = (5.25 :: real)" using fl_halves(3) by simp
  from m[THEN conjunct2, THEN conjunct2, rule_format, OF v] e
  have "\<exists>s'. setSyncClick (markDataClick markedDemo) = Inr s' \<and> syncOffset s' = 5.25" by auto
  with st e m[THEN conjunct1] show ?thesis by simp
qed

subsection \<open>Identity-keyed persistence\<close>









lemma mediaDemo_info:
  "currentVideoFileInfo mediaDemo = Some \<lparr> fi_name = ''clip.mp4'', fi_size = 1234 \<rparr>"
  by (simp add: mediaDemo_def setCurrentVideoFileInfo_def)




subsection \<open>Annotations\<close>

lemma splice1_length: "i < length xs \<Longrightarrow> length (splice1 xs i) + 1 = length xs"
  by (simp add: splice1_def)

lemma splice1_before: "j < i \<Longrightarrow> i < length xs \<Longrightarrow> splice1 xs i ! j = xs ! j"
  by (simp add: splice1_def nth_append)

lemma splice1_after:
  "i \<le> j \<Longrightarrow> j < length (splice1 xs i) \<Longrightarrow> i < length xs \<Longrightarrow> splice1 xs i ! j = xs ! (j + 1)"
  by (simp add: splice1_def nth_append min_def)

text \<open>
  C7. Deleting at an index outside the annotation sequence (below 0, or at or beyond its
  length) does not raise: the call returns normally and changes nothing, and nothing is
  saved. Deleting at an index inside the sequence removes exactly that element (the
  elements before it stay, the elements after it move up by one) and ends with a save of
  the shortened sequence.
\<close>

theorem deleteTimestamp_contract:
  "((index < 0 \<or> int (length (timestamps s)) \<le> index) \<longrightarrow> deleteTimestamp s index = Inr s)
   \<and> ((0 \<le> index \<and> index < int (length (timestamps s))) \<longrightarrow>
        (\<exists>s'. deleteTimestamp s index = Inr s'
           \<and> saveProjectToLocal (s\<lparr>timestamps := timestamps s'\<rparr>) None = Inr s'
           \<and> length (timestamps s') + 1 = length (timestamps s)
           \<and> (\<forall>j. j < nat index \<longrightarrow> timestamps s' ! j = timestamps s ! j)
           \<and> (\<forall>j. nat index \<le> j \<and> j < length (timestamps s') \<longrightarrow>
                  timestamps s' ! j = timestamps s ! (j + 1))))"
proof (intro conjI impI)
  assume "index < 0 \<or> int (length (timestamps s)) \<le> index"
  then show "deleteTimestamp s index = Inr s"
    by (auto simp: deleteTimestamp_def)
next
  assume inb: "0 \<le> index \<and> index < int (length (timestamps s))"
  let ?ts = "splice1 (timestamps s) (nat index)"
  have i: "nat index < length (timestamps s)" using inb by linarith
  obtain s' where s': "saveProjectToLocal (s\<lparr>timestamps := ?ts\<rparr>) None = Inr s'"
    using save_returns by blast
  have del: "deleteTimestamp s index = Inr s'"
    using inb s' by (simp add: deleteTimestamp_def)
  have ts: "timestamps s' = ?ts"
    using save_keeps(4)[OF s'] by simp
  have "length (timestamps s') + 1 = length (timestamps s)"
    unfolding ts using i by (rule splice1_length)
  moreover have "\<forall>j. j < nat index \<longrightarrow> timestamps s' ! j = timestamps s ! j"
    unfolding ts using i by (simp add: splice1_before)
  moreover have "\<forall>j. nat index \<le> j \<and> j < length (timestamps s') \<longrightarrow>
                  timestamps s' ! j = timestamps s ! (j + 1)"
    unfolding ts using i by (simp add: splice1_after)
  ultimately show "\<exists>s'. deleteTimestamp s index = Inr s'
           \<and> saveProjectToLocal (s\<lparr>timestamps := timestamps s'\<rparr>) None = Inr s'
           \<and> length (timestamps s') + 1 = length (timestamps s)
           \<and> (\<forall>j. j < nat index \<longrightarrow> timestamps s' ! j = timestamps s ! j)
           \<and> (\<forall>j. nat index \<le> j \<and> j < length (timestamps s') \<longrightarrow>
                  timestamps s' ! j = timestamps s ! (j + 1))"
    using del s' ts by auto
qed

lemma annDemo_length: "length (timestamps annDemo) = 2"
  by (simp add: annDemo_def)

theorem deleteTimestamp_contract_witness:
  "length (timestamps annDemo) = 2
   \<and> deleteTimestamp annDemo 2 = Inr annDemo
   \<and> (\<exists>s'. deleteTimestamp annDemo 0 = Inr s'
         \<and> length (timestamps s') + 1 = length (timestamps annDemo)
         \<and> timestamps s' ! 0 = timestamps annDemo ! 1)"
proof -
  note c = deleteTimestamp_contract[of _ annDemo]
  have out: "deleteTimestamp annDemo 2 = Inr annDemo"
    using c[of 2, THEN conjunct1] by (simp add: annDemo_length)
  have "0 \<le> (0::int) \<and> (0::int) < int (length (timestamps annDemo))"
    by (simp add: annDemo_length)
  from c[of 0, THEN conjunct2, rule_format, OF this]
  obtain s' where s': "deleteTimestamp annDemo 0 = Inr s'"
    "length (timestamps s') + 1 = length (timestamps annDemo)"
    "\<forall>j. nat 0 \<le> j \<and> j < length (timestamps s') \<longrightarrow> timestamps s' ! j = timestamps annDemo ! (j + 1)"
    by blast
  from s'(2) have "length (timestamps s') = 1" by (simp add: annDemo_length)
  with s'(3) have "timestamps s' ! 0 = timestamps annDemo ! 1" by simp
  with out s'(1,2) annDemo_length show ?thesis by blast
qed

theorem deleteTimestamp_out_of_range_counterexample:
  "length (timestamps annDemo) = 2
   \<and> deleteTimestamp annDemo (- 1) = Inr annDemo \<and> deleteTimestamp annDemo (- 1) \<noteq> Inl IndexError
   \<and> deleteTimestamp annDemo 2 = Inr annDemo \<and> deleteTimestamp annDemo 2 \<noteq> Inl IndexError"
  by (simp add: deleteTimestamp_def annDemo_def)

subsection \<open>Tracking loop\<close>

lemma renderFrame_idle:
  "\<not> isRunning s \<or> readyState t < 2 \<Longrightarrow> renderFrame s t = (s, idleFrame)"
  by (auto simp: renderFrame_def)

lemma renderFrame_keeps:
  "isRunning (fst (renderFrame s t)) = isRunning s"
  "currentMode (fst (renderFrame s t)) = currentMode s"
  "csvData (fst (renderFrame s t)) = csvData s"
  "csvTimesSeconds (fst (renderFrame s t)) = csvTimesSeconds s"
  "imuPanel_shown (fst (renderFrame s t)) = imuPanel_shown s"
  by (simp_all add: renderFrame_def Let_def updateCharts_keeps split: option.splits)

lemma renderFrame_upload:
  assumes "isRunning s" and "currentMode s = Upload" and "2 \<le> readyState t"
  shows "frameIndex (fst (renderFrame s t)) = frameIndex s + 1"
    and "inferred (snd (renderFrame s t))
           = ((frameIndex s + 1) mod UPLOAD_FRAME_SKIP = 0 \<or> lastPose s = None)"
    and "lastPose (fst (renderFrame s t))
           = (if inferred (snd (renderFrame s t)) then estimatePoses t else lastPose s)"
    and "drawn (snd (renderFrame s t)) = lastPose (fst (renderFrame s t))"
  using assms
  by (auto simp add: renderFrame_def Let_def updateCharts_keeps split: option.splits)

lemma renderFrame_throttle:
  "imuUpdated (snd (renderFrame s t)) \<Longrightarrow>
     fl (performance_now t - lastImuUpdateTime s) > IMU_UPDATE_THROTTLE_MS
     \<and> lastImuUpdateTime (fst (renderFrame s t)) = performance_now t
     \<and> drawn (snd (renderFrame s t)) \<noteq> None"
  "\<not> imuUpdated (snd (renderFrame s t)) \<Longrightarrow>
     lastImuUpdateTime (fst (renderFrame s t)) = lastImuUpdateTime s"
  by (auto simp add: renderFrame_def Let_def updateCharts_keeps idleFrame_def
      split: option.splits if_splits)

text \<open>The test of the throttle passes only if the difference itself exceeds the interval.\<close>

lemma throttle_exceeds:
  "fl x > IMU_UPDATE_THROTTLE_MS \<Longrightarrow> x > IMU_UPDATE_THROTTLE_MS"
proof (rule ccontr)
  assume a: "fl x > IMU_UPDATE_THROTTLE_MS" and "\<not> x > IMU_UPDATE_THROTTLE_MS"
  then have "x \<le> 33" by (simp add: IMU_UPDATE_THROTTLE_MS_def)
  then have "fl x \<le> fl 33" by (rule fl_mono)
  with a show False by (simp add: IMU_UPDATE_THROTTLE_MS_def fl_small_ints)
qed

lemma renderFrame_throttle_iff:
  assumes "isRunning s" and "currentMode s = Upload" and "2 \<le> readyState t"
    and "csvData s \<noteq> None" and "csvTimesSeconds s \<noteq> []" and "imuPanel_shown s"
  shows "imuUpdated (snd (renderFrame s t))
           = (drawn (snd (renderFrame s t)) \<noteq> None
              \<and> fl (performance_now t - lastImuUpdateTime s) > IMU_UPDATE_THROTTLE_MS)"
  using assms
  by (auto simp add: renderFrame_def Let_def updateCharts_keeps split: option.splits)

lemma renderFrame_draws:
  assumes "isRunning s" and "currentMode s = Upload" and "2 \<le> readyState t"
    and "estimatePoses t \<noteq> None"
  shows "drawn (snd (renderFrame s t)) \<noteq> None"
  using assms
  by (auto simp add: renderFrame_def Let_def updateCharts_keeps split: option.splits)

lemma runFrames_length: "length (runFrames s ticks) = length ticks"
  by (induction ticks arbitrary: s) simp_all

lemma runState_snoc: "runState s (ticks @ [t]) = fst (renderFrame (runState s ticks) t)"
  by (induction ticks arbitrary: s) simp_all

lemma runState_take_Suc:
  "i < length ticks \<Longrightarrow>
     runState s (take (Suc i) ticks) = fst (renderFrame (runState s (take i ticks)) (ticks ! i))"
  by (simp add: take_Suc_conv_app_nth runState_snoc)

lemma runFrames_nth:
  "i < length ticks \<Longrightarrow>
     runFrames s ticks ! i = snd (renderFrame (runState s (take i ticks)) (ticks ! i))"
proof (induction ticks arbitrary: s i)
  case Nil
  then show ?case by simp
next
  case (Cons t ts)
  then show ?case by (cases i) simp_all
qed

lemma runState_keeps:
  "isRunning (runState s ticks) = isRunning s"
  "currentMode (runState s ticks) = currentMode s"
  "csvData (runState s ticks) = csvData s"
  "csvTimesSeconds (runState s ticks) = csvTimesSeconds s"
  "imuPanel_shown (runState s ticks) = imuPanel_shown s"
  by (induction ticks arbitrary: s) (simp_all add: renderFrame_keeps)

lemma runState_frameIndex:
  assumes "isRunning s" and "currentMode s = Upload" and "\<forall>t \<in> set ticks. 2 \<le> readyState t"
  shows "frameIndex (runState s ticks) = frameIndex s + length ticks"
  using assms
proof (induction ticks arbitrary: s)
  case Nil
  then show ?case by simp
next
  case (Cons t ts)
  have "frameIndex (fst (renderFrame s t)) = frameIndex s + 1"
    using Cons.prems by (simp add: renderFrame_upload)
  moreover have "frameIndex (runState (fst (renderFrame s t)) ts)
                   = frameIndex (fst (renderFrame s t)) + length ts"
    using Cons.prems by (intro Cons.IH) (simp_all add: renderFrame_keeps)
  ultimately show ?case by simp
qed

lemma renderFrame_last_mono:
  "lastImuUpdateTime s \<le> lastImuUpdateTime (fst (renderFrame s t))"
proof (cases "imuUpdated (snd (renderFrame s t))")
  case True
  from renderFrame_throttle(1)[OF this]
  have "performance_now t - lastImuUpdateTime s > IMU_UPDATE_THROTTLE_MS"
    and "lastImuUpdateTime (fst (renderFrame s t)) = performance_now t"
    using throttle_exceeds by blast+
  then show ?thesis by (simp add: IMU_UPDATE_THROTTLE_MS_def)
next
  case False
  then show ?thesis by (simp add: renderFrame_throttle(2))
qed

lemma throttle_first:
  "i < length ticks \<Longrightarrow> imuUpdated (runFrames s ticks ! i) \<Longrightarrow>
     performance_now (ticks ! i) - lastImuUpdateTime s > IMU_UPDATE_THROTTLE_MS"
proof (induction ticks arbitrary: s i)
  case Nil
  then show ?case by simp
next
  case (Cons t ts)
  show ?case
  proof (cases i)
    case 0
    with Cons.prems show ?thesis
      using renderFrame_throttle(1)[of s t] throttle_exceeds by simp
  next
    case (Suc k)
    with Cons.prems have "performance_now (ts ! k) - lastImuUpdateTime (fst (renderFrame s t))
                            > IMU_UPDATE_THROTTLE_MS"
      using Cons.IH[of k "fst (renderFrame s t)"] by simp
    moreover have "lastImuUpdateTime s \<le> lastImuUpdateTime (fst (renderFrame s t))"
      by (rule renderFrame_last_mono)
    ultimately show ?thesis using Suc by simp
  qed
qed

lemma throttle_pairwise:
  "i < j \<Longrightarrow> j < length ticks \<Longrightarrow> imuUpdated (runFrames s ticks ! i) \<Longrightarrow>
   imuUpdated (runFrames s ticks ! j) \<Longrightarrow>
     performance_now (ticks ! j) - performance_now (ticks ! i) > IMU_UPDATE_THROTTLE_MS"
proof (induction ticks arbitrary: s i j)
  case Nil
  then show ?case by simp
next
  case (Cons t ts)
  from Cons.prems obtain k where j: "j = Suc k" by (cases j) auto
  show ?case
  proof (cases i)
    case 0
    with Cons.prems have fired: "imuUpdated (snd (renderFrame s t))" by simp
    then have "lastImuUpdateTime (fst (renderFrame s t)) = performance_now t"
      using renderFrame_throttle(1) by blast
    moreover have "performance_now (ts ! k) - lastImuUpdateTime (fst (renderFrame s t))
                     > IMU_UPDATE_THROTTLE_MS"
      using Cons.prems j throttle_first[of k ts "fst (renderFrame s t)"] by simp
    ultimately show ?thesis using 0 j by simp
  next
    case (Suc i')
    with Cons.prems j show ?thesis
      using Cons.IH[of i' k "fst (renderFrame s t)"] by simp
  qed
qed

lemma frame_skip_step:
  assumes run: "isRunning s" and up: "currentMode s = Upload"
    and ready: "\<forall>t \<in> set ticks. 2 \<le> readyState t" and i: "i < length ticks"
  shows "frameIndex (runState s (take i ticks)) = frameIndex s + i"
    and "frameIndex (runState s (take (Suc i) ticks)) = frameIndex s + i + 1"
    and "inferred (runFrames s ticks ! i)
           = ((frameIndex s + i + 1) mod UPLOAD_FRAME_SKIP = 0
              \<or> lastPose (runState s (take i ticks)) = None)"
    and "lastPose (runState s (take (Suc i) ticks))
           = (if inferred (runFrames s ticks ! i) then estimatePoses (ticks ! i)
              else lastPose (runState s (take i ticks)))"
    and "drawn (runFrames s ticks ! i) = lastPose (runState s (take (Suc i) ticks))"
proof -
  let ?b = "runState s (take i ticks)"
  have rb: "isRunning ?b" "currentMode ?b = Upload"
    using run up by (simp_all add: runState_keeps)
  have ti: "2 \<le> readyState (ticks ! i)" using ready i by simp
  have "\<forall>t \<in> set (take i ticks). 2 \<le> readyState t"
    using ready by (meson in_set_takeD)
  from runState_frameIndex[OF run up this] i
  show fb: "frameIndex ?b = frameIndex s + i" by simp
  note step = renderFrame_upload[OF rb ti]
  show "frameIndex (runState s (take (Suc i) ticks)) = frameIndex s + i + 1"
    using step(1) fb i by (simp add: runState_take_Suc)
  show "inferred (runFrames s ticks ! i)
           = ((frameIndex s + i + 1) mod UPLOAD_FRAME_SKIP = 0 \<or> lastPose ?b = None)"
    using step(2) fb i by (simp add: runFrames_nth)
  show "lastPose (runState s (take (Suc i) ticks))
           = (if inferred (runFrames s ticks ! i) then estimatePoses (ticks ! i) else lastPose ?b)"
    using step(3) i by (simp add: runFrames_nth runState_take_Suc)
  show "drawn (runFrames s ticks ! i) = lastPose (runState s (take (Suc i) ticks))"
    using step(4) i by (simp add: runFrames_nth runState_take_Suc)
qed

text \<open>
  C3. In upload mode, over any sequence of ticks on which the loop is running and the video
  is ready: each tick increments \<open>frameIndex\<close> by one; the tick asks the detector exactly when
  the incremented \<open>frameIndex\<close> is a multiple of 2 or no pose is stored, which after the first
  tick means that the previous tick drew nothing (the detector found no pose, or has not
  been asked); a tick that asks draws what the detector returns, and a tick that does not
  ask draws the stored pose, the one the previous tick drew. Counting from
  \<open>frameIndex = 0\<close>, if the detector returns a pose on tick 2, tick 3 does not ask and draws
  that pose.
\<close>

theorem frame_skip_policy:
  assumes "isRunning s" and "currentMode s = Upload"
    and "\<forall>t \<in> set ticks. 2 \<le> readyState t" and "i < length ticks"
  shows "frameIndex (runState s (take (Suc i) ticks)) = frameIndex (runState s (take i ticks)) + 1
     \<and> frameIndex (runState s (take (Suc i) ticks)) = frameIndex s + i + 1
     \<and> inferred (runFrames s ticks ! i)
          = (frameIndex (runState s (take (Suc i) ticks)) mod UPLOAD_FRAME_SKIP = 0
             \<or> lastPose (runState s (take i ticks)) = None)
     \<and> (0 < i \<longrightarrow> lastPose (runState s (take i ticks)) = drawn (runFrames s ticks ! (i - 1)))
     \<and> (inferred (runFrames s ticks ! i) \<longrightarrow>
           drawn (runFrames s ticks ! i) = estimatePoses (ticks ! i))
     \<and> (\<not> inferred (runFrames s ticks ! i) \<longrightarrow>
           drawn (runFrames s ticks ! i) = lastPose (runState s (take i ticks)))
     \<and> (frameIndex s = 0 \<and> i = 2 \<and> estimatePoses (ticks ! 1) \<noteq> None \<longrightarrow>
           inferred (runFrames s ticks ! 1)
         \<and> \<not> inferred (runFrames s ticks ! 2)
         \<and> drawn (runFrames s ticks ! 2) = estimatePoses (ticks ! 1))"
proof -
  note st = frame_skip_step[OF assms(1-3)]
  have a: "frameIndex (runState s (take (Suc i) ticks)) = frameIndex (runState s (take i ticks)) + 1"
    using st(1,2)[OF assms(4)] by simp
  have b: "0 < i \<longrightarrow> lastPose (runState s (take i ticks)) = drawn (runFrames s ticks ! (i - 1))"
  proof
    assume "0 < i"
    then obtain k where k: "i = Suc k" by (cases i) auto
    then have "k < length ticks" using assms(4) by simp
    from st(5)[OF this] k show "lastPose (runState s (take i ticks)) = drawn (runFrames s ticks ! (i - 1))"
      by simp
  qed
  have c: "frameIndex s = 0 \<and> i = 2 \<and> estimatePoses (ticks ! 1) \<noteq> None \<longrightarrow>
           inferred (runFrames s ticks ! 1)
         \<and> \<not> inferred (runFrames s ticks ! 2)
         \<and> drawn (runFrames s ticks ! 2) = estimatePoses (ticks ! 1)"
  proof
    assume h: "frameIndex s = 0 \<and> i = 2 \<and> estimatePoses (ticks ! 1) \<noteq> None"
    then have l1: "1 < length ticks" and l2: "2 < length ticks" using assms(4) by simp_all
    have i1: "inferred (runFrames s ticks ! 1)"
      using st(3)[OF l1] h by (simp add: UPLOAD_FRAME_SKIP_def)
    then have p2: "lastPose (runState s (take 2 ticks)) = estimatePoses (ticks ! 1)"
      using st(4)[OF l1] by (simp add: numeral_2_eq_2)
    then have i2: "\<not> inferred (runFrames s ticks ! 2)"
      using st(3)[OF l2] h by (simp add: UPLOAD_FRAME_SKIP_def)
    then have "lastPose (runState s (take (Suc 2) ticks)) = estimatePoses (ticks ! 1)"
      using st(4)[OF l2] p2 by simp
    then have "drawn (runFrames s ticks ! 2) = estimatePoses (ticks ! 1)"
      using st(5)[OF l2] by simp
    with i1 i2 show "inferred (runFrames s ticks ! 1)
         \<and> \<not> inferred (runFrames s ticks ! 2)
         \<and> drawn (runFrames s ticks ! 2) = estimatePoses (ticks ! 1)" by simp
  qed
  show ?thesis
    using a b c st(2,3,4,5)[OF assms(4)] by simp
qed

lemma uploadDemo_state:
  "isRunning uploadDemo" "currentMode uploadDemo = Upload" "frameIndex uploadDemo = 0"
  "lastPose uploadDemo = None" "csvData uploadDemo \<noteq> None" "csvTimesSeconds uploadDemo \<noteq> []"
  "imuPanel_shown uploadDemo" "lastImuUpdateTime uploadDemo = 0"
  using csvDemo_loaded
  by (simp_all add: uploadDemo_def handleStart_def csvDemo_fields)

lemma demoTicks_ready:
  "\<forall>t \<in> set steadyTicks. 2 \<le> readyState t"
  "\<forall>t \<in> set lostTicks. 2 \<le> readyState t"
  "\<forall>t \<in> set throttleTicks. 2 \<le> readyState t"
  "\<forall>t \<in> set throttleTicks. estimatePoses t \<noteq> None"
  "\<forall>t \<in> set noPoseTicks. 2 \<le> readyState t"
  by (simp_all add: steadyTicks_def lostTicks_def throttleTicks_def noPoseTicks_def mkTick_def)

theorem frame_skip_policy_witness:
  "isRunning uploadDemo \<and> currentMode uploadDemo = Upload \<and> frameIndex uploadDemo = 0
   \<and> map readyState steadyTicks = [4, 4, 4]
   \<and> estimatePoses (steadyTicks ! 1) = Some poseB \<and> estimatePoses (steadyTicks ! 2) = Some poseA
   \<and> frameIndex (runState uploadDemo (take 3 steadyTicks)) = 3
   \<and> inferred (runFrames uploadDemo steadyTicks ! 1)
   \<and> \<not> inferred (runFrames uploadDemo steadyTicks ! 2)
   \<and> drawn (runFrames uploadDemo steadyTicks ! 2) = Some poseB"
proof -
  have len: "2 < length steadyTicks" by (simp add: steadyTicks_def)
  have est: "estimatePoses (steadyTicks ! 1) = Some poseB" "estimatePoses (steadyTicks ! 2) = Some poseA"
    by (simp_all add: steadyTicks_def mkTick_def)
  have rs: "map readyState steadyTicks = [4, 4, 4]"
    by (simp add: steadyTicks_def mkTick_def)
  note p = frame_skip_policy[OF uploadDemo_state(1,2) demoTicks_ready(1) len]
  have f: "frameIndex (runState uploadDemo (take 3 steadyTicks)) = 3"
    using p[THEN conjunct2, THEN conjunct1] by (simp add: uploadDemo_state(3) eval_nat_numeral)
  have "frameIndex uploadDemo = 0 \<and> (2::nat) = 2 \<and> estimatePoses (steadyTicks ! 1) \<noteq> None"
    using est by (simp add: uploadDemo_state(3))
  with p have "inferred (runFrames uploadDemo steadyTicks ! 1)
         \<and> \<not> inferred (runFrames uploadDemo steadyTicks ! 2)
         \<and> drawn (runFrames uploadDemo steadyTicks ! 2) = estimatePoses (steadyTicks ! 1)"
    by blast
  with est rs f uploadDemo_state(1,2,3) show ?thesis by simp
qed

theorem frame_skip_lost_pose_counterexample:
  "isRunning uploadDemo \<and> currentMode uploadDemo = Upload \<and> frameIndex uploadDemo = 0
   \<and> map readyState lostTicks = [4, 4, 4]
   \<and> drawn (runFrames uploadDemo lostTicks ! 0) = Some poseA
   \<and> inferred (runFrames uploadDemo lostTicks ! 1)
   \<and> estimatePoses (lostTicks ! 1) = None
   \<and> frameIndex (runState uploadDemo (take 3 lostTicks)) = 3
   \<and> inferred (runFrames uploadDemo lostTicks ! 2)
   \<and> drawn (runFrames uploadDemo lostTicks ! 2) = Some poseB
   \<and> drawn (runFrames uploadDemo lostTicks ! 2) \<noteq> estimatePoses (lostTicks ! 1)"
proof -
  note st = frame_skip_step[OF uploadDemo_state(1,2) demoTicks_ready(2)]
  have l: "0 < length lostTicks" "1 < length lostTicks" "2 < length lostTicks"
    by (simp_all add: lostTicks_def)
  have est: "estimatePoses (lostTicks ! 0) = Some poseA" "estimatePoses (lostTicks ! 1) = None"
    "estimatePoses (lostTicks ! 2) = Some poseB"
    by (simp_all add: lostTicks_def mkTick_def)
  have rs: "map readyState lostTicks = [4, 4, 4]"
    by (simp add: lostTicks_def mkTick_def)
  have i0: "inferred (runFrames uploadDemo lostTicks ! 0)"
    using st(3)[OF l(1)] by (simp add: uploadDemo_state)
  then have d0: "drawn (runFrames uploadDemo lostTicks ! 0) = Some poseA"
    using st(4,5)[OF l(1)] est by simp
  have i1: "inferred (runFrames uploadDemo lostTicks ! 1)"
    using st(3)[OF l(2)] by (simp add: uploadDemo_state UPLOAD_FRAME_SKIP_def)
  then have p2: "lastPose (runState uploadDemo (take 2 lostTicks)) = None"
    using st(4)[OF l(2)] est by (simp add: numeral_2_eq_2)
  then have i2: "inferred (runFrames uploadDemo lostTicks ! 2)"
    using st(3)[OF l(3)] by simp
  then have d2: "drawn (runFrames uploadDemo lostTicks ! 2) = Some poseB"
    using st(4,5)[OF l(3)] est by simp
  have f: "frameIndex (runState uploadDemo (take 3 lostTicks)) = 3"
    using st(2)[OF l(3)] by (simp add: uploadDemo_state eval_nat_numeral)
  from uploadDemo_state(1,2,3) rs d0 i1 est(2) f i2 d2 show ?thesis by simp
qed

lemma throttle_after:
  assumes "i < length ticks"
  shows "lastImuUpdateTime (runState s (take (Suc i) ticks))
           = (if imuUpdated (runFrames s ticks ! i) then performance_now (ticks ! i)
              else lastImuUpdateTime (runState s (take i ticks)))"
  using assms renderFrame_throttle[of "runState s (take i ticks)" "ticks ! i"]
  by (simp add: runFrames_nth runState_take_Suc)

lemma throttle_iff_run:
  assumes "isRunning s" and "currentMode s = Upload"
    and "csvData s \<noteq> None" and "csvTimesSeconds s \<noteq> []" and "imuPanel_shown s"
    and "\<forall>t \<in> set ticks. 2 \<le> readyState t"
    and "i < length ticks"
  shows "imuUpdated (runFrames s ticks ! i)
           = (drawn (runFrames s ticks ! i) \<noteq> None
              \<and> fl (performance_now (ticks ! i) - lastImuUpdateTime (runState s (take i ticks)))
                  > IMU_UPDATE_THROTTLE_MS)"
proof -
  let ?b = "runState s (take i ticks)"
  have t: "2 \<le> readyState (ticks ! i)"
    using assms(6,7) by simp
  have "imuUpdated (snd (renderFrame ?b (ticks ! i)))
          = (drawn (snd (renderFrame ?b (ticks ! i))) \<noteq> None
             \<and> fl (performance_now (ticks ! i) - lastImuUpdateTime ?b) > IMU_UPDATE_THROTTLE_MS)"
    using assms(1-5) t by (intro renderFrame_throttle_iff) (simp_all add: runState_keeps)
  then show ?thesis using assms(7) by (simp add: runFrames_nth)
qed

lemma drawn_run:
  assumes "isRunning s" and "currentMode s = Upload"
    and "\<forall>t \<in> set ticks. 2 \<le> readyState t"
    and "i < length ticks" and "estimatePoses (ticks ! i) \<noteq> None"
  shows "drawn (runFrames s ticks ! i) \<noteq> None"
proof -
  let ?b = "runState s (take i ticks)"
  have t: "2 \<le> readyState (ticks ! i)" using assms(3,4) by simp
  have "drawn (snd (renderFrame ?b (ticks ! i))) \<noteq> None"
    using assms(1,2,5) t by (intro renderFrame_draws) (simp_all add: runState_keeps)
  then show ?thesis using assms(4) by (simp add: runFrames_nth)
qed

text \<open>
  Four ticks at 0, 10, 20 and 40 ms after the time \<open>T\<close> of the first one, from the initial
  throttle state, the first tick drawing a pose.
\<close>

lemma throttle_four:
  assumes "isRunning s" and "currentMode s = Upload"
    and "csvData s \<noteq> None" and "csvTimesSeconds s \<noteq> []" and "imuPanel_shown s"
    and "\<forall>t \<in> set ticks. 2 \<le> readyState t"
    and "lastImuUpdateTime s = 0" and "fl T = T" and "IMU_UPDATE_THROTTLE_MS < T"
    and "map performance_now ticks = [T, T + 10, T + 20, T + 40]"
    and "drawn (runFrames s ticks ! 0) \<noteq> None"
  shows "length ticks = 4"
    and "imuUpdated (runFrames s ticks ! 0)"
    and "\<not> imuUpdated (runFrames s ticks ! 1)"
    and "\<not> imuUpdated (runFrames s ticks ! 2)"
    and "imuUpdated (runFrames s ticks ! 3) = (drawn (runFrames s ticks ! 3) \<noteq> None)"
proof -
  have "length (map performance_now ticks) = 4"
    by (simp only: assms(10)) simp
  then show len: "length ticks = 4" by simp
  have now: "performance_now (ticks ! 0) = T" "performance_now (ticks ! 1) = T + 10"
    "performance_now (ticks ! 2) = T + 20" "performance_now (ticks ! 3) = T + 40"
    using arg_cong[OF assms(10), of "\<lambda>xs. xs ! 0"] arg_cong[OF assms(10), of "\<lambda>xs. xs ! 1"]
      arg_cong[OF assms(10), of "\<lambda>xs. xs ! 2"] arg_cong[OF assms(10), of "\<lambda>xs. xs ! 3"] len
    by simp_all
  note iff = throttle_iff_run[OF assms(1-6)]
  have l: "0 < length ticks" "1 < length ticks" "2 < length ticks" "3 < length ticks"
    using len by simp_all
  show f0: "imuUpdated (runFrames s ticks ! 0)"
    using iff[OF l(1)] now assms(7,8,9,11) by simp
  then have a1: "lastImuUpdateTime (runState s (take 1 ticks)) = T"
    using throttle_after[OF l(1), of s] now by simp
  show f1: "\<not> imuUpdated (runFrames s ticks ! 1)"
    using iff[OF l(2)] now a1 by (simp add: IMU_UPDATE_THROTTLE_MS_def fl_small_ints)
  then have a2: "lastImuUpdateTime (runState s (take 2 ticks)) = T"
    using throttle_after[OF l(2), of s] a1 by (simp add: numeral_2_eq_2)
  show f2: "\<not> imuUpdated (runFrames s ticks ! 2)"
    using iff[OF l(3)] now a2 by (simp add: IMU_UPDATE_THROTTLE_MS_def fl_small_ints)
  then have a3: "lastImuUpdateTime (runState s (take 3 ticks)) = T"
    using throttle_after[OF l(3), of s] a2 by (simp add: numeral_3_eq_3 numeral_2_eq_2)
  show "imuUpdated (runFrames s ticks ! 3) = (drawn (runFrames s ticks ! 3) \<noteq> None)"
    using iff[OF l(4)] now a3 by (simp add: IMU_UPDATE_THROTTLE_MS_def fl_small_ints)
qed

lemma throttle_pattern:
  assumes "isRunning s" and "currentMode s = Upload"
    and "csvData s \<noteq> None" and "csvTimesSeconds s \<noteq> []" and "imuPanel_shown s"
    and "\<forall>t \<in> set ticks. 2 \<le> readyState t"
    and "lastImuUpdateTime s = 0" and "fl T = T" and "IMU_UPDATE_THROTTLE_MS < T"
    and "\<forall>t \<in> set ticks. estimatePoses t \<noteq> None"
    and "map performance_now ticks = [T, T + 10, T + 20, T + 40]"
  shows "map imuUpdated (runFrames s ticks) = [True, False, False, True]"
proof -
  have "length (map performance_now ticks) = 4"
    by (simp only: assms(11)) simp
  then have len: "length ticks = 4" by simp
  have d0: "drawn (runFrames s ticks ! 0) \<noteq> None"
    using assms(10) len by (intro drawn_run[OF assms(1,2,6)]) simp_all
  have d3: "drawn (runFrames s ticks ! 3) \<noteq> None"
    using assms(10) len by (intro drawn_run[OF assms(1,2,6)]) simp_all
  note f = throttle_four[OF assms(1-9) assms(11) d0]
  have "length (runFrames s ticks) = 4" using len by (simp add: runFrames_length)
  then obtain a b c d where fr: "runFrames s ticks = [a, b, c, d]"
    by (auto simp: length_Suc_conv eval_nat_numeral)
  with f(2-5) d3 show ?thesis by simp
qed

text \<open>
  C4. Over any sequence of ticks, two chart updates made by the loop are more than 33 ms
  of \<open>performance.now()\<close> apart, and an update happens only on a tick that draws a pose and
  whose time exceeds the time of the last update (0 when the page has loaded) by more
  than 33 ms, after which that tick's time is the time of the last update. While the loop
  runs in upload mode with sensor data loaded, the panel shown and the video ready, the
  update happens on exactly those ticks (the test being made on the rounded difference).
  Under these conditions, from the initial throttle state and with a pose found on every
  tick, ticks at \<open>T\<close>, \<open>T + 10\<close>, \<open>T + 20\<close> and \<open>T + 40\<close> ms, where the time \<open>T\<close> of the first tick
  is above 33, update at the first and at the last tick only.
\<close>

theorem throttle_policy:
  "(\<forall>i j. i < j \<and> j < length ticks \<and> imuUpdated (runFrames s ticks ! i)
          \<and> imuUpdated (runFrames s ticks ! j) \<longrightarrow>
        performance_now (ticks ! j) - performance_now (ticks ! i) > IMU_UPDATE_THROTTLE_MS)
   \<and> (\<forall>i. i < length ticks \<and> imuUpdated (runFrames s ticks ! i) \<longrightarrow>
        drawn (runFrames s ticks ! i) \<noteq> None
        \<and> performance_now (ticks ! i) - lastImuUpdateTime (runState s (take i ticks))
          > IMU_UPDATE_THROTTLE_MS
        \<and> lastImuUpdateTime (runState s (take (Suc i) ticks)) = performance_now (ticks ! i))
   \<and> (isRunning s \<and> currentMode s = Upload \<and> csvData s \<noteq> None \<and> csvTimesSeconds s \<noteq> []
        \<and> imuPanel_shown s \<and> (\<forall>t \<in> set ticks. 2 \<le> readyState t) \<longrightarrow>
        (\<forall>i. i < length ticks \<longrightarrow>
           imuUpdated (runFrames s ticks ! i)
             = (drawn (runFrames s ticks ! i) \<noteq> None
                \<and> fl (performance_now (ticks ! i) - lastImuUpdateTime (runState s (take i ticks)))
                    > IMU_UPDATE_THROTTLE_MS))
        \<and> (\<forall>T. lastImuUpdateTime s = 0 \<and> fl T = T \<and> IMU_UPDATE_THROTTLE_MS < T
               \<and> (\<forall>t \<in> set ticks. estimatePoses t \<noteq> None)
               \<and> map performance_now ticks = [T, T + 10, T + 20, T + 40] \<longrightarrow>
             map imuUpdated (runFrames s ticks) = [True, False, False, True]))"
proof (intro conjI allI impI)
  fix i j
  assume "i < j \<and> j < length ticks \<and> imuUpdated (runFrames s ticks ! i)
          \<and> imuUpdated (runFrames s ticks ! j)"
  then show "performance_now (ticks ! j) - performance_now (ticks ! i) > IMU_UPDATE_THROTTLE_MS"
    using throttle_pairwise[of i j ticks s] by simp
next
  fix i
  assume h: "i < length ticks \<and> imuUpdated (runFrames s ticks ! i)"
  then have "imuUpdated (snd (renderFrame (runState s (take i ticks)) (ticks ! i)))"
    by (auto simp: runFrames_nth)
  from renderFrame_throttle(1)[OF this] h
  show "drawn (runFrames s ticks ! i) \<noteq> None"
    and "performance_now (ticks ! i) - lastImuUpdateTime (runState s (take i ticks))
          > IMU_UPDATE_THROTTLE_MS"
    and "lastImuUpdateTime (runState s (take (Suc i) ticks)) = performance_now (ticks ! i)"
    using throttle_exceeds by (simp_all add: runState_take_Suc runFrames_nth)
next
  fix i
  assume c: "isRunning s \<and> currentMode s = Upload \<and> csvData s \<noteq> None \<and> csvTimesSeconds s \<noteq> []
        \<and> imuPanel_shown s \<and> (\<forall>t \<in> set ticks. 2 \<le> readyState t)"
    and i: "i < length ticks"
  then show "imuUpdated (runFrames s ticks ! i)
             = (drawn (runFrames s ticks ! i) \<noteq> None
                \<and> fl (performance_now (ticks ! i) - lastImuUpdateTime (runState s (take i ticks)))
                    > IMU_UPDATE_THROTTLE_MS)"
    by (intro throttle_iff_run) simp_all
next
  fix T
  assume c: "isRunning s \<and> currentMode s = Upload \<and> csvData s \<noteq> None \<and> csvTimesSeconds s \<noteq> []
        \<and> imuPanel_shown s \<and> (\<forall>t \<in> set ticks. 2 \<le> readyState t)"
    and e: "lastImuUpdateTime s = 0 \<and> fl T = T \<and> IMU_UPDATE_THROTTLE_MS < T
               \<and> (\<forall>t \<in> set ticks. estimatePoses t \<noteq> None)
               \<and> map performance_now ticks = [T, T + 10, T + 20, T + 40]"
  then show "map imuUpdated (runFrames s ticks) = [True, False, False, True]"
    by (intro throttle_pattern[of s ticks T]) simp_all
qed

lemma throttleTicks_values:
  "map readyState throttleTicks = [4, 4, 4, 4]"
  "map estimatePoses throttleTicks = [Some poseA, Some poseA, Some poseA, Some poseA]"
  "map performance_now throttleTicks = [5000, 5010, 5020, 5040]"
  by (simp_all add: throttleTicks_def mkTick_def)

lemma noPoseTicks_values:
  "map readyState noPoseTicks = [4, 4, 4, 4]"
  "map estimatePoses noPoseTicks = [Some poseA, Some poseA, Some poseA, None]"
  "map performance_now noPoseTicks = [5000, 5010, 5020, 5040]"
  by (simp_all add: noPoseTicks_def mkTick_def)

theorem throttle_policy_witness:
  "isRunning uploadDemo \<and> currentMode uploadDemo = Upload \<and> csvData uploadDemo \<noteq> None
   \<and> csvTimesSeconds uploadDemo \<noteq> [] \<and> imuPanel_shown uploadDemo
   \<and> lastImuUpdateTime uploadDemo = 0 \<and> fl 5000 = 5000
   \<and> map readyState throttleTicks = [4, 4, 4, 4]
   \<and> map estimatePoses throttleTicks = [Some poseA, Some poseA, Some poseA, Some poseA]
   \<and> map performance_now throttleTicks = [5000, 5010, 5020, 5040]
   \<and> map imuUpdated (runFrames uploadDemo throttleTicks) = [True, False, False, True]
   \<and> performance_now (throttleTicks ! 3) - performance_now (throttleTicks ! 0) > 33"
proof -
  note t = throttleTicks_values
  have c: "isRunning uploadDemo \<and> currentMode uploadDemo = Upload \<and> csvData uploadDemo \<noteq> None
        \<and> csvTimesSeconds uploadDemo \<noteq> [] \<and> imuPanel_shown uploadDemo
        \<and> (\<forall>t \<in> set throttleTicks. 2 \<le> readyState t)"
    using uploadDemo_state demoTicks_ready(3) by simp
  have e: "lastImuUpdateTime uploadDemo = 0 \<and> fl 5000 = 5000 \<and> IMU_UPDATE_THROTTLE_MS < 5000
        \<and> (\<forall>t \<in> set throttleTicks. estimatePoses t \<noteq> None)
        \<and> map performance_now throttleTicks = [5000, 5000 + 10, 5000 + 20, 5000 + 40]"
    using uploadDemo_state t demoTicks_ready(4)
    by (simp add: IMU_UPDATE_THROTTLE_MS_def fl_small_ints)
  from throttle_policy[of throttleTicks uploadDemo, THEN conjunct2, THEN conjunct2, rule_format, OF c,
      THEN conjunct2, rule_format, OF e]
  have a: "map imuUpdated (runFrames uploadDemo throttleTicks) = [True, False, False, True]" .
  have fired: "(0::nat) < 3 \<and> 3 < length throttleTicks
      \<and> imuUpdated (runFrames uploadDemo throttleTicks ! 0)
      \<and> imuUpdated (runFrames uploadDemo throttleTicks ! 3)"
    using arg_cong[OF a, of "\<lambda>xs. xs ! 0"] arg_cong[OF a, of "\<lambda>xs. xs ! 3"]
    by (simp add: throttleTicks_def runFrames_length)
  from throttle_policy[of throttleTicks uploadDemo, THEN conjunct1, rule_format, OF fired]
  have b: "performance_now (throttleTicks ! 3) - performance_now (throttleTicks ! 0) > 33"
    by (simp add: IMU_UPDATE_THROTTLE_MS_def)
  from uploadDemo_state t a b fl_small_ints(10) show ?thesis by simp
qed

theorem throttle_no_pose_counterexample:
  "isRunning uploadDemo \<and> currentMode uploadDemo = Upload \<and> csvData uploadDemo \<noteq> None
   \<and> csvTimesSeconds uploadDemo \<noteq> [] \<and> imuPanel_shown uploadDemo
   \<and> lastImuUpdateTime uploadDemo = 0 \<and> frameIndex uploadDemo = 0
   \<and> map readyState noPoseTicks = [4, 4, 4, 4]
   \<and> map estimatePoses noPoseTicks = [Some poseA, Some poseA, Some poseA, None]
   \<and> map performance_now noPoseTicks = [5000, 5010, 5020, 5040]
   \<and> drawn (runFrames uploadDemo noPoseTicks ! 3) = None
   \<and> map imuUpdated (runFrames uploadDemo noPoseTicks) = [True, False, False, False]
   \<and> \<not> imuUpdated (runFrames uploadDemo noPoseTicks ! 3)"
proof -
  note t = noPoseTicks_values
  note st = frame_skip_step[OF uploadDemo_state(1,2) demoTicks_ready(5)]
  have l: "0 < length noPoseTicks" "3 < length noPoseTicks"
    by (simp_all add: noPoseTicks_def)
  have est: "estimatePoses (noPoseTicks ! 0) \<noteq> None" "estimatePoses (noPoseTicks ! 3) = None"
    by (simp_all add: noPoseTicks_def mkTick_def)
  have d0: "drawn (runFrames uploadDemo noPoseTicks ! 0) \<noteq> None"
    by (rule drawn_run[OF uploadDemo_state(1,2) demoTicks_ready(5) l(1) est(1)])
  have i3: "inferred (runFrames uploadDemo noPoseTicks ! 3)"
    using st(3)[OF l(2)] by (simp add: uploadDemo_state UPLOAD_FRAME_SKIP_def)
  then have d3: "drawn (runFrames uploadDemo noPoseTicks ! 3) = None"
    using st(4,5)[OF l(2)] est(2) by simp
  have p: "map performance_now noPoseTicks = [5000, 5000 + 10, 5000 + 20, 5000 + 40]"
    using t(3) by simp
  have T: "fl 5000 = 5000" "IMU_UPDATE_THROTTLE_MS < 5000"
    by (simp_all add: IMU_UPDATE_THROTTLE_MS_def fl_small_ints)
  note f = throttle_four[OF uploadDemo_state(1,2,5,6,7) demoTicks_ready(5) uploadDemo_state(8) T p d0]
  have "length (runFrames uploadDemo noPoseTicks) = 4" using f(1) by (simp add: runFrames_length)
  then obtain a b c d where fr: "runFrames uploadDemo noPoseTicks = [a, b, c, d]"
    by (auto simp: length_Suc_conv eval_nat_numeral)
  with f(2-5) d3 have m: "map imuUpdated (runFrames uploadDemo noPoseTicks) = [True, False, False, False]"
    by simp
  have n3: "\<not> imuUpdated (runFrames uploadDemo noPoseTicks ! 3)"
    using f(5) d3 by simp
  from uploadDemo_state t d3 m n3 show ?thesis by simp
qed

subsection \<open>Reading numbers\<close>

text \<open>
  A no-break space is whitespace; a literal below the smallest double reads as zero; a
  literal between two doubles reads as the nearer one, a tie going to the even one.
\<close>

lemma trim_no_break_space: "trim [CHR 0xA0, CHR 0x20] = []"
  by (simp add: trim_def isWhiteSpace_def)

lemma parseFloat_no_break_space: "parseFloat ([CHR 0xA0] @ ''2'') = Num 2"
  by (simp add: parseFloat_eval)

lemma fl_underflow: "fl (5 / 10 ^ 400) = 0"
  by (subst fl_subnormal) (simp_all add: pow2_def roundHalfEven_def)

lemma parseFloat_underflow: "parseFloat ''5e-400'' = Num 0"
proof -
  have "parseFloat ''5e-400'' = js_round (5 / 10 ^ 400)"
    by (simp add: parseFloat_def trimStart_def isWhiteSpace_def parseUnsigned_def startsWith_def
        isDigit_def digitsValue_def parseExponent_def scale10_def)
  also have "\<dots> = Num (fl (5 / 10 ^ 400))" by (rule js_round_small) simp
  finally show ?thesis by (simp only: fl_underflow)
qed

lemma fl_tie: "fl 9007199254740993 = 9007199254740992"
  by (subst fl_normal[of 53]) (simp_all add: pow2_def roundHalfEven_def)

lemma parseFloat_tie: "parseFloat ''9007199254740993'' = Num 9007199254740992"
proof -
  have "parseFloat ''9007199254740993'' = js_round 9007199254740993"
    by (simp add: parseFloat_def trimStart_def isWhiteSpace_def parseUnsigned_def startsWith_def
        isDigit_def digitsValue_def parseExponent_def scale10_def)
  also have "\<dots> = Num (fl 9007199254740993)"
    by (rule js_round_pow2[of _ 60]) (simp_all add: pow2_def)
  finally show ?thesis by (simp only: fl_tie)
qed

subsection \<open>Time-series store\<close>

lemma map_of_obj_put: "map_of (obj_put r k v) = (map_of r)(k \<mapsto> v)"
  by (induction r k v rule: obj_put.induct) auto

lemma obj_get_obj_set:
  "obj_get (obj_set r k v) k' =
     (if k = ''__proto__'' then obj_get r k' else if k' = k then Some v else obj_get r k')"
  by (simp add: obj_get_def obj_set_def map_of_obj_put)

lemma enumerate_snoc: "enumerate n (xs @ [x]) = enumerate n xs @ [(n + length xs, x)]"
  by (simp add: enumerate_eq_zip)

lemma parseRow_snoc:
  "parseRow (hs @ [h]) line
     = obj_set (parseRow hs line) h (finiteOrZero (fieldAt (split line (CHR '','')) (length hs)))"
  by (simp add: parseRow_def Let_def enumerate_snoc)

lemma parseRow_column:
  assumes "j < length hs" and "\<forall>k. j < k \<and> k < length hs \<longrightarrow> hs ! k \<noteq> hs ! j"
    and "hs ! j \<noteq> ''__proto__''"
  shows "obj_get (parseRow hs line) (hs ! j)
           = Some (finiteOrZero (fieldAt (split line (CHR '','')) j))"
  using assms
proof (induction hs rule: rev_induct)
  case Nil
  then show ?case by simp
next
  case (snoc h hs)
  show ?case
  proof (cases "j = length hs")
    case True
    then show ?thesis
      using snoc.prems(3) by (simp add: parseRow_snoc obj_get_obj_set)
  next
    case False
    with snoc.prems have j: "j < length hs" by simp
    have "(hs @ [h]) ! length hs \<noteq> (hs @ [h]) ! j"
      using snoc.prems j by (metis length_append_singleton lessI)
    then have ne: "h \<noteq> hs ! j" using j by (simp add: nth_append)
    have "\<forall>k. j < k \<and> k < length hs \<longrightarrow> hs ! k \<noteq> hs ! j"
    proof (intro allI impI)
      fix k assume k: "j < k \<and> k < length hs"
      then have "(hs @ [h]) ! k \<noteq> (hs @ [h]) ! j" using snoc.prems(2) by simp
      with k j show "hs ! k \<noteq> hs ! j" by (simp add: nth_append)
    qed
    moreover have "hs ! j \<noteq> ''__proto__''" using snoc.prems(3) j by (simp add: nth_append)
    ultimately have "obj_get (parseRow hs line) (hs ! j)
           = Some (finiteOrZero (fieldAt (split line (CHR '','')) j))"
      using snoc.IH j by simp
    with ne j show ?thesis
      by (simp add: parseRow_snoc obj_get_obj_set nth_append)
  qed
qed

lemma parseRow_proto: "obj_get (parseRow hs line) ''__proto__'' = None"
proof (induction hs rule: rev_induct)
  case Nil
  then show ?case by (simp add: parseRow_def obj_get_def)
next
  case (snoc h hs)
  then show ?case by (simp add: parseRow_snoc obj_get_obj_set)
qed

lemma finiteOrZero_not_finite: "\<not> isFinite v \<Longrightarrow> finiteOrZero v = 0"
  by (simp add: finiteOrZero_def)

lemma parseLines_nonblank:
  "\<forall>l \<in> set ls. trim l \<noteq> [] \<Longrightarrow> parseLines hs ls = map (parseRow hs) ls"
  by (induction ls) simp_all

lemma nonBlankLines_nonblank: "\<forall>l \<in> set (nonBlankLines text). trim l \<noteq> []"
  by (simp add: nonBlankLines_def)

lemma charts_keep_csv:
  "csvData (updateImuChartsFull (initImuCharts s)) = csvData s"
  "csvTimesSeconds (updateImuChartsFull (initImuCharts s)) = csvTimesSeconds s"
  by (simp_all add: updateImuChartsFull_def initImuCharts_def Let_def)

lemma csvOnload_parsed:
  assumes "nonBlankLines text = header # dataLines"
  shows "csvData (csvOnload s text)
           = Some (map (parseRow (map trim (split header (CHR '','')))) dataLines)"
    and "csvTimesSeconds (csvOnload s text)
           = timeAxis (map (parseRow (map trim (split header (CHR '','')))) dataLines)"
proof -
  have "\<forall>l \<in> set dataLines. trim l \<noteq> []"
    using nonBlankLines_nonblank[of "text"] assms by simp
  then have "parseLines (map trim (split header (CHR '',''))) dataLines
               = map (parseRow (map trim (split header (CHR '','')))) dataLines"
    by (rule parseLines_nonblank)
  then show "csvData (csvOnload s text)
           = Some (map (parseRow (map trim (split header (CHR '','')))) dataLines)"
    and "csvTimesSeconds (csvOnload s text)
           = timeAxis (map (parseRow (map trim (split header (CHR '','')))) dataLines)"
    using assms by (simp_all add: csvOnload_def Let_def charts_keep_csv)
qed

lemma timeAxis_nth: "i < length rows \<Longrightarrow> timeAxis rows ! i = fl (real i / SAMPLE_RATE_HZ)"
  by (simp add: timeAxis_def)

lemma timeAxis_length: "length (timeAxis rows) = length rows"
  by (simp add: timeAxis_def)

text \<open>
  C8. When the text has a header line, every non-blank line after it yields exactly one
  sample, in order: no line is dropped and the parse does not fail, whatever its fields
  hold. In each sample, for every header column whose name is not \<open>__proto__\<close> and does not
  occur again in a later column, the value under that name is the number \<open>parseFloat\<close>
  reads from the field of that column, and 0 if that is not a finite number (also when the
  line has no such field). Under the name \<open>__proto__\<close> a sample stores nothing. The time
  axis has one entry per sample, entry \<open>i\<close> being the quotient \<open>i / SAMPLE_RATE_HZ\<close> of the
  two doubles.
\<close>

theorem csv_parse_contract:
  assumes "nonBlankLines text = header # dataLines"
  shows "\<exists>rows. csvData (csvOnload s text) = Some rows
     \<and> length rows = length dataLines
     \<and> (\<forall>i j. i < length dataLines \<and> j < length (map trim (split header (CHR '','')))
            \<and> map trim (split header (CHR '','')) ! j \<noteq> ''__proto__''
            \<and> (\<forall>k. j < k \<and> k < length (map trim (split header (CHR '',''))) \<longrightarrow>
                   map trim (split header (CHR '','')) ! k \<noteq> map trim (split header (CHR '','')) ! j)
          \<longrightarrow> obj_get (rows ! i) (map trim (split header (CHR '','')) ! j)
                = Some (finiteOrZero (fieldAt (split (dataLines ! i) (CHR '','')) j))
            \<and> (\<not> isFinite (fieldAt (split (dataLines ! i) (CHR '','')) j) \<longrightarrow>
                  obj_get (rows ! i) (map trim (split header (CHR '','')) ! j) = Some 0))
     \<and> (\<forall>i. i < length dataLines \<longrightarrow> obj_get (rows ! i) ''__proto__'' = None)
     \<and> length (csvTimesSeconds (csvOnload s text)) = length rows
     \<and> (\<forall>i. i < length rows \<longrightarrow>
           csvTimesSeconds (csvOnload s text) ! i = fl (real i / SAMPLE_RATE_HZ))"
proof -
  let ?hs = "map trim (split header (CHR '',''))"
  let ?rows = "map (parseRow ?hs) dataLines"
  note p = csvOnload_parsed[OF assms, of s]
  have col: "obj_get (?rows ! i) (?hs ! j) = Some (finiteOrZero (fieldAt (split (dataLines ! i) (CHR '','')) j))
            \<and> (\<not> isFinite (fieldAt (split (dataLines ! i) (CHR '','')) j) \<longrightarrow>
                  obj_get (?rows ! i) (?hs ! j) = Some 0)"
    if "i < length dataLines \<and> j < length ?hs \<and> ?hs ! j \<noteq> ''__proto__''
            \<and> (\<forall>k. j < k \<and> k < length ?hs \<longrightarrow> ?hs ! k \<noteq> ?hs ! j)" for i j
  proof -
    from that have "obj_get (parseRow ?hs (dataLines ! i)) (?hs ! j)
           = Some (finiteOrZero (fieldAt (split (dataLines ! i) (CHR '','')) j))"
      by (intro parseRow_column) blast+
    with that show ?thesis by (simp add: finiteOrZero_not_finite)
  qed
  have proto: "\<forall>i. i < length dataLines \<longrightarrow> obj_get (?rows ! i) ''__proto__'' = None"
    by (simp add: parseRow_proto)
  have "csvData (csvOnload s text) = Some ?rows" by (rule p(1))
  moreover have "length ?rows = length dataLines" by simp
  moreover have "length (csvTimesSeconds (csvOnload s text)) = length ?rows"
    by (simp only: p(2) timeAxis_length)
  moreover have "\<forall>i. i < length ?rows \<longrightarrow>
           csvTimesSeconds (csvOnload s text) ! i = fl (real i / SAMPLE_RATE_HZ)"
    by (simp add: p(2) timeAxis_nth)
  ultimately show ?thesis using col proto by blast
qed

lemma demo_headers: "map trim (split ''ax,ay'' (CHR '','')) = [''ax'', ''ay'']"
  by (simp add: split_def trim_def isWhiteSpace_def)

lemma demo_bad_field: "\<not> isFinite (fieldAt (split ''abc,-3'' (CHR '','')) 0)"
  by (simp add: split_def fieldAt_def isFinite_def parseFloat_eval)

lemma demo_good_field: "fieldAt (split ''abc,-3'' (CHR '','')) 1 = Num (- 3)"
  by (simp add: split_def fieldAt_def parseFloat_eval)

theorem csv_parse_contract_witness:
  "nonBlankLines csvDemoText = [''ax,ay'', ''1.5,2'', ''abc,-3'']
   \<and> map trim (split ''ax,ay'' (CHR '','')) = [''ax'', ''ay'']
   \<and> \<not> isFinite (fieldAt (split ''abc,-3'' (CHR '','')) 0)
   \<and> (\<exists>rows. csvData (csvOnload initialApp csvDemoText) = Some rows \<and> length rows = 2
         \<and> obj_get (rows ! 1) ''ax'' = Some 0 \<and> obj_get (rows ! 1) ''ay'' = Some (- 3))
   \<and> length (csvTimesSeconds (csvOnload initialApp csvDemoText)) = 2
   \<and> csvTimesSeconds (csvOnload initialApp csvDemoText) ! 1 = fl (1 / 104)"
proof -
  note c = csv_parse_contract[OF nonBlank_demo, of initialApp, unfolded demo_headers]
  from c obtain rows where rows: "csvData (csvOnload initialApp csvDemoText) = Some rows"
    and len0: "length rows = length [''1.5,2'', ''abc,-3'']"
    and col0: "\<forall>i j. i < length [''1.5,2'', ''abc,-3''] \<and> j < length [''ax'', ''ay'']
            \<and> [''ax'', ''ay''] ! j \<noteq> ''__proto__''
            \<and> (\<forall>k. j < k \<and> k < length [''ax'', ''ay''] \<longrightarrow>
                   [''ax'', ''ay''] ! k \<noteq> [''ax'', ''ay''] ! j)
          \<longrightarrow> obj_get (rows ! i) ([''ax'', ''ay''] ! j)
                = Some (finiteOrZero (fieldAt (split ([''1.5,2'', ''abc,-3''] ! i) (CHR '','')) j))
            \<and> (\<not> isFinite (fieldAt (split ([''1.5,2'', ''abc,-3''] ! i) (CHR '','')) j) \<longrightarrow>
                  obj_get (rows ! i) ([''ax'', ''ay''] ! j) = Some 0)"
    and tl: "length (csvTimesSeconds (csvOnload initialApp csvDemoText)) = length rows"
    and tn0: "\<forall>i. i < length rows \<longrightarrow>
           csvTimesSeconds (csvOnload initialApp csvDemoText) ! i = fl (real i / SAMPLE_RATE_HZ)"
    by blast
  have len: "length rows = 2" using len0 by simp
  have tn: "csvTimesSeconds (csvOnload initialApp csvDemoText) ! i = fl (real i / SAMPLE_RATE_HZ)"
    if "i < length rows" for i
    using tn0 that by blast
  have h10: "(1::nat) < length [''1.5,2'', ''abc,-3''] \<and> (0::nat) < length [''ax'', ''ay'']
            \<and> [''ax'', ''ay''] ! 0 \<noteq> ''__proto__''
            \<and> (\<forall>k. 0 < k \<and> k < length [''ax'', ''ay''] \<longrightarrow>
                   [''ax'', ''ay''] ! k \<noteq> [''ax'', ''ay''] ! 0)"
    by (auto simp: less_Suc_eq)
  have h11: "(1::nat) < length [''1.5,2'', ''abc,-3''] \<and> (1::nat) < length [''ax'', ''ay'']
            \<and> [''ax'', ''ay''] ! 1 \<noteq> ''__proto__''
            \<and> (\<forall>k. 1 < k \<and> k < length [''ax'', ''ay''] \<longrightarrow>
                   [''ax'', ''ay''] ! k \<noteq> [''ax'', ''ay''] ! 1)"
    by auto
  have ax: "obj_get (rows ! 1) ''ax'' = Some 0"
    using col0[rule_format, OF h10] demo_bad_field by (simp add: finiteOrZero_not_finite)
  have ay: "obj_get (rows ! 1) ''ay'' = Some (- 3)"
    using col0[rule_format, OF h11] demo_good_field by (simp add: finiteOrZero_def isFinite_def)
  have t1: "csvTimesSeconds (csvOnload initialApp csvDemoText) ! 1 = fl (1 / 104)"
    using tn[of 1] len by (simp add: SAMPLE_RATE_HZ_def)
  from nonBlank_demo demo_headers demo_bad_field rows len ax ay tl t1 show ?thesis by simp
qed

lemma dup_lines: "nonBlankLines dupText = [''a,a'', ''x,5'']"
  by (simp add: nonBlankLines_def dupText_def splitLines_def trim_def isWhiteSpace_def)

lemma dup_headers: "map trim (split ''a,a'' (CHR '','')) = [''a'', ''a'']"
  by (simp add: split_def trim_def isWhiteSpace_def)

lemma dup_row: "parseRow [''a'', ''a''] ''x,5'' = [(''a'', 5)]"
  by (simp add: parseRow_def split_def enumerate_eq_zip upt_rec fieldAt_def finiteOrZero_def
      isFinite_def obj_set_def parseFloat_eval)

lemma proto_lines: "nonBlankLines protoText = [''__proto__,ax'', ''x,5'']"
  by (simp add: nonBlankLines_def protoText_def splitLines_def trim_def isWhiteSpace_def)

lemma proto_headers: "map trim (split ''__proto__,ax'' (CHR '','')) = [''__proto__'', ''ax'']"
  by (simp add: split_def trim_def isWhiteSpace_def)

lemma proto_row: "parseRow [''__proto__'', ''ax''] ''x,5'' = [(''ax'', 5)]"
  by (simp add: parseRow_def split_def enumerate_eq_zip upt_rec fieldAt_def finiteOrZero_def
      isFinite_def obj_set_def parseFloat_eval)

theorem csv_header_name_counterexample:
  "nonBlankLines dupText = [''a,a'', ''x,5'']
   \<and> map trim (split ''a,a'' (CHR '','')) = [''a'', ''a'']
   \<and> \<not> isFinite (fieldAt (split ''x,5'' (CHR '','')) 0)
   \<and> csvData (csvOnload initialApp dupText) = Some [[(''a'', 5)]]
   \<and> obj_get [(''a'', 5)] ([''a'', ''a''] ! 0) \<noteq> Some 0
   \<and> nonBlankLines protoText = [''__proto__,ax'', ''x,5'']
   \<and> map trim (split ''__proto__,ax'' (CHR '','')) = [''__proto__'', ''ax'']
   \<and> csvData (csvOnload initialApp protoText) = Some [[(''ax'', 5)]]
   \<and> obj_get [(''ax'', 5)] ([''__proto__'', ''ax''] ! 0) \<noteq> Some 0"
proof -
  have bad: "\<not> isFinite (fieldAt (split ''x,5'' (CHR '','')) 0)"
    by (simp add: split_def fieldAt_def isFinite_def parseFloat_eval)
  have d: "csvData (csvOnload initialApp dupText) = Some [[(''a'', 5)]]"
    using csvOnload_parsed(1)[OF dup_lines, of initialApp] by (simp add: dup_headers dup_row)
  have p: "csvData (csvOnload initialApp protoText) = Some [[(''ax'', 5)]]"
    using csvOnload_parsed(1)[OF proto_lines, of initialApp] by (simp add: proto_headers proto_row)
  from dup_lines dup_headers bad d proto_lines proto_headers p show ?thesis
    by (simp add: obj_get_def)
qed

subsection \<open>Project bundle\<close>

lemma toLowerCase_append: "toLowerCase (a @ b) = toLowerCase a @ toLowerCase b"
  by (simp add: toLowerCase_def)

lemma toLowerCase_zip: "toLowerCase ''.zip'' = ''.zip''"
  by (simp add: toLowerCase_def)

lemma endsWith_append: "endsWith (a @ p) p"
  by (simp add: endsWith_def)

lemma export_name:
  "endsWith (toLowerCase (if \<not> endsWith (toLowerCase n) ''.zip'' then n @ ''.zip'' else n)) ''.zip''"
  by (simp add: toLowerCase_append toLowerCase_zip endsWith_append)

lemma exportProject_Some:
  assumes "exportProject String_of_num s env = Some file"
  shows "endsWith (toLowerCase (file_name file)) ''.zip''"
    and "\<exists>z. file_content file = ZipContent z
           \<and> project_json z = Some (JSON_stringify
                \<lparr> pd_syncOffset = Val (syncOffset s),
                  pd_timestamps = Val (timestamps s),
                  pd_sampleRate = Val SAMPLE_RATE_HZ,
                  pd_createdAt = Val (clock s),
                  pd_notes = Val (notesInput_value s),
                  pd_videoFileName = Val ''video_from_project.mp4'',
                  pd_csvFileName = (if rowsOf s \<noteq> [] then Val ''imu_data.csv'' else Null) \<rparr>)"
proof -
  from assms have f: "file =
      \<lparr> file_name = (if \<not> endsWith (toLowerCase (promptAnswer env)) ''.zip''
                      then promptAnswer env @ ''.zip'' else promptAnswer env),
        file_content = file_content file \<rparr>"
    by (auto simp: exportProject_def Let_def split: if_splits)
  show "endsWith (toLowerCase (file_name file)) ''.zip''"
    by (subst f) (simp only: projectFile.simps export_name)
  from assms show "\<exists>z. file_content file = ZipContent z
           \<and> project_json z = Some (JSON_stringify
                \<lparr> pd_syncOffset = Val (syncOffset s),
                  pd_timestamps = Val (timestamps s),
                  pd_sampleRate = Val SAMPLE_RATE_HZ,
                  pd_createdAt = Val (clock s),
                  pd_notes = Val (notesInput_value s),
                  pd_videoFileName = Val ''video_from_project.mp4'',
                  pd_csvFileName = (if rowsOf s \<noteq> [] then Val ''imu_data.csv'' else Null) \<rparr>)"
    by (auto simp: exportProject_def Let_def split: if_splits)
qed

lemma applyMetadata_fields:
  "syncOffset (applyMetadata s pd) = (case pd_syncOffset pd of Val x \<Rightarrow> x | _ \<Rightarrow> 0)"
  "timestamps (applyMetadata s pd) = (case pd_timestamps pd of Val ts \<Rightarrow> ts | _ \<Rightarrow> [])"
  "notesInput_value (applyMetadata s pd) = (case pd_notes pd of Val n \<Rightarrow> n | _ \<Rightarrow> [])"
  by (auto simp: applyMetadata_def split: jsprop.splits)

lemma importVideo_keeps:
  "syncOffset (importVideo s z) = syncOffset s"
  "timestamps (importVideo s z) = timestamps s"
  "notesInput_value (importVideo s z) = notesInput_value s"
  by (simp_all add: importVideo_def setCurrentVideoFileInfo_def Let_def split: option.splits)

lemma charts_keep_meta:
  "syncOffset (updateImuChartsFull (initImuCharts s)) = syncOffset s"
  "timestamps (updateImuChartsFull (initImuCharts s)) = timestamps s"
  "notesInput_value (updateImuChartsFull (initImuCharts s)) = notesInput_value s"
  "timestamps (updateChartsForVideoTime s vt) = timestamps s"
  "notesInput_value (updateChartsForVideoTime s vt) = notesInput_value s"
  by (simp_all add: updateImuChartsFull_def initImuCharts_def updateChartsForVideoTime_def Let_def)

lemma importZip_metadata:
  assumes "project_json z = Some (JSON_stringify pd)"
  shows "\<exists>r'. importZip r z ct = Inr r'
           \<and> syncOffset r' = (case pd_syncOffset pd of Val x \<Rightarrow> x | _ \<Rightarrow> 0)
           \<and> timestamps r' = (case pd_timestamps pd of Val ts \<Rightarrow> ts | _ \<Rightarrow> [])
           \<and> notesInput_value r' = (case pd_notes pd of Val n \<Rightarrow> n | _ \<Rightarrow> [])"
proof -
  let ?s2 = "importVideo (applyMetadata r pd) z"
  have m: "syncOffset ?s2 = (case pd_syncOffset pd of Val x \<Rightarrow> x | _ \<Rightarrow> 0)"
    "timestamps ?s2 = (case pd_timestamps pd of Val ts \<Rightarrow> ts | _ \<Rightarrow> [])"
    "notesInput_value ?s2 = (case pd_notes pd of Val n \<Rightarrow> n | _ \<Rightarrow> [])"
    by (simp_all add: importVideo_keeps applyMetadata_fields)
  have saved: "\<exists>r'. saveProjectToLocal x (Some pd) = Inr r'
           \<and> syncOffset r' = syncOffset ?s2 \<and> timestamps r' = timestamps ?s2
           \<and> notesInput_value r' = notesInput_value ?s2"
    if "syncOffset x = syncOffset ?s2" "timestamps x = timestamps ?s2"
       "notesInput_value x = notesInput_value ?s2" for x
  proof -
    obtain r' where r': "saveProjectToLocal x (Some pd) = Inr r'"
      using save_returns by blast
    with save_keeps[OF r'] that show ?thesis by simp
  qed
  have "\<exists>r'. importZip r z ct = Inr r'
           \<and> syncOffset r' = syncOffset ?s2 \<and> timestamps r' = timestamps ?s2
           \<and> notesInput_value r' = notesInput_value ?s2"
    using assms
    by (auto simp add: importZip_def JSON_stringify_def JSON_parse_def Let_def
        updateCharts_keeps charts_keep_meta
        intro!: saved split: option.splits)
  with m show ?thesis by simp
qed

text \<open>
  C6. Whenever an export produces a bundle (the archive library is present and the user
  gives a file name), importing that bundle into any state of an application that has the
  archive library returns normally and leaves the live state with the exported offset,
  the exported annotation sequence (same length, and the same time, label, event type
  and notes at every position) and the exported notes text. The sample rate is the
  constant \<open>SAMPLE_RATE_HZ\<close> on both sides, and it is the rate written into the bundle.
\<close>

theorem export_import_round_trip:
  assumes "exportProject String_of_num s env = Some file" and "window_JSZip r"
  shows "\<exists>r'. importProject r file currentTime = Inr r'
     \<and> syncOffset r' = syncOffset s
     \<and> timestamps r' = timestamps s
     \<and> length (timestamps r') = length (timestamps s)
     \<and> (\<forall>i. i < length (timestamps s) \<longrightarrow>
           a_time (timestamps r' ! i) = a_time (timestamps s ! i)
         \<and> a_label (timestamps r' ! i) = a_label (timestamps s ! i)
         \<and> a_eventType (timestamps r' ! i) = a_eventType (timestamps s ! i)
         \<and> a_notes (timestamps r' ! i) = a_notes (timestamps s ! i))
     \<and> notesInput_value r' = notesInput_value s
     \<and> aggregateOf r' = aggregateOf s
     \<and> (\<exists>z pd. file_content file = ZipContent z \<and> project_json z = Some (JSON_stringify pd)
           \<and> pd_sampleRate pd = Val (ag_sampleRate (aggregateOf r')))"
proof -
  let ?pd = "\<lparr> pd_syncOffset = Val (syncOffset s),
                  pd_timestamps = Val (timestamps s),
                  pd_sampleRate = Val SAMPLE_RATE_HZ,
                  pd_createdAt = Val (clock s),
                  pd_notes = Val (notesInput_value s),
                  pd_videoFileName = Val ''video_from_project.mp4'',
                  pd_csvFileName = (if rowsOf s \<noteq> [] then Val ''imu_data.csv'' else Null) \<rparr>"
  note e = exportProject_Some[OF assms(1)]
  from e(2) obtain z where z: "file_content file = ZipContent z"
    and pj: "project_json z = Some (JSON_stringify ?pd)" by blast
  from importZip_metadata[OF pj, of r currentTime]
  obtain r' where r': "importZip r z currentTime = Inr r'"
    and m: "syncOffset r' = syncOffset s" "timestamps r' = timestamps s"
      "notesInput_value r' = notesInput_value s"
    by auto
  have imp: "importProject r file currentTime = Inr r'"
    using e(1) assms(2) z r' by (simp add: importProject_def)
  have agg: "aggregateOf r' = aggregateOf s"
    using m by (simp add: aggregateOf_def)
  have rate: "pd_sampleRate ?pd = Val (ag_sampleRate (aggregateOf r'))"
    by (simp add: aggregateOf_def)
  from imp m agg z pj rate show ?thesis by auto
qed

lemma exportDemo_file:
  "\<exists>z. exportProject (\<lambda>x. ''0'') exportDemo exportDemoEnv
          = Some \<lparr> file_name = ''session1.zip'', file_content = ZipContent z \<rparr>
       \<and> map relativePath (video_folder z) = [''video_from_project.webm'']"
  by (simp add: exportProject_def exportDemo_def exportDemoEnv_def mediaDemo_def
      setCurrentVideoFileInfo_def annDemo_def initialApp_def Let_def rowsOf_def
      endsWith_def toLowerCase_def split_def)

theorem export_import_round_trip_witness:
  "window_JSZip initialApp
   \<and> (\<exists>z. exportProject (\<lambda>x. ''0'') exportDemo exportDemoEnv
             = Some \<lparr> file_name = ''session1.zip'', file_content = ZipContent z \<rparr>
        \<and> (\<exists>r'. importProject initialApp
                    \<lparr> file_name = ''session1.zip'', file_content = ZipContent z \<rparr> 0 = Inr r'
              \<and> syncOffset r' = 4.25
              \<and> timestamps r' = timestamps annDemo
              \<and> notesInput_value r' = ''left knee''))"
proof -
  have w: "window_JSZip initialApp" by (simp add: initialApp_def)
  from exportDemo_file obtain z where
    ex: "exportProject (\<lambda>x. ''0'') exportDemo exportDemoEnv
           = Some \<lparr> file_name = ''session1.zip'', file_content = ZipContent z \<rparr>"
    by blast
  have st: "syncOffset exportDemo = 4.25" "timestamps exportDemo = timestamps annDemo"
    "notesInput_value exportDemo = ''left knee''"
    by (simp_all add: exportDemo_def mediaDemo_def setCurrentVideoFileInfo_def)
  from export_import_round_trip[OF ex w, of 0]
  obtain r' where "importProject initialApp
                    \<lparr> file_name = ''session1.zip'', file_content = ZipContent z \<rparr> 0 = Inr r'"
    and "syncOffset r' = syncOffset exportDemo" and "timestamps r' = timestamps exportDemo"
    and "notesInput_value r' = notesInput_value exportDemo"
    by blast
  with st w ex show ?thesis by auto
qed

end
